theory Spec2Isabelle
  imports Complex_Main "HOL-Library.Log_Nat"
begin

section \<open>Data model of the automation engine\<close>

text \<open>
  The engine keeps its state in module-level variables (\<^verbatim>\<open>pendingEvents\<close>,
  \<^verbatim>\<open>deletedEvents\<close>, \<^verbatim>\<open>automationState\<close>, \<^verbatim>\<open>rateLimitState\<close>,
  \<^verbatim>\<open>scheduledJobs\<close>, \<^verbatim>\<open>profilesRef\<close>, \<^verbatim>\<open>knownGroupIds\<close>). They are
  gathered in the record \<open>engine\<close> and every operation takes the engine and returns the
  new one. \<^verbatim>\<open>Date.now()\<close> is the explicit argument \<open>now\<close>, in milliseconds.

  Instants. The source stores instants as ISO strings written by \<^verbatim>\<open>toISOString()\<close> and
  reads them back with \<^verbatim>\<open>Date.parse\<close> or \<^verbatim>\<open>new Date(..)\<close>. A stored instant is
  represented by its millisecond value; \<open>None\<close> stands for a field that is absent
  (undefined), empty or not parseable: \<^verbatim>\<open>parseEventStartMs\<close> gives null and
  \<^verbatim>\<open>getTime()\<close> gives NaN. The engine never writes null into \<^verbatim>\<open>eventStartsAt\<close> or
  \<^verbatim>\<open>scheduledPublishTime\<close>; a stored null, which \<^verbatim>\<open>parseEventStartMs\<close> reads as
  null and \<^verbatim>\<open>new Date(..)\<close> as the epoch, is not among the values of this model.

  Strings. Ids, keys and statuses are JavaScript strings and stay strings here. A
  nullable string is a \<open>string option\<close>; JavaScript truthiness of such a value is \<open>truthy\<close>.
\<close>

type_synonym millis = int

definition truthy :: "string option \<Rightarrow> bool" where
  "truthy v = (case v of None \<Rightarrow> False | Some s \<Rightarrow> s \<noteq> [])"

text \<open>\<^verbatim>\<open>a || b\<close> on nullable strings.\<close>

definition or_else :: "string option \<Rightarrow> string option \<Rightarrow> string option" where
  "or_else a b = (if truthy a then a else b)"

text \<open>\<^verbatim>\<open>x || d\<close> on a number: zero (and a missing field, which reads as zero here) is falsy.\<close>

definition num_or :: "int \<Rightarrow> int \<Rightarrow> int" where
  "num_or x d = (if x = 0 then d else x)"

text \<open>
  \<^verbatim>\<open>manualOverrides\<close> is an attribute bag. The keys the engine itself reads are
  \<^verbatim>\<open>title\<close>, \<^verbatim>\<open>eventStartsAt\<close> and \<^verbatim>\<open>durationMinutes\<close>; the remaining keys are kept
  as an association list.
\<close>

record manualOverrides =
  ov_title :: "string option"
  ov_eventStartsAt :: "millis option"
  ov_durationMinutes :: "int option"
  ov_other :: "(string \<times> string) list"

record pendingEvent =
  id :: string
  slotKey :: "string option"
  groupId :: string
  profileKey :: string
  eventStartsAt :: "millis option"
  scheduledPublishTime :: "millis option"
  manualOverrides :: "manualOverrides option"
  status :: string
  missedAt :: "millis option"
  queuedAt :: "millis option"
  deletedAt :: "millis option"
  eventId :: "string option"

record automation =
  enabled :: bool
  timingMode :: string
  daysOffset :: int
  hoursOffset :: int
  minutesOffset :: int
  monthlyDay :: int
  monthlyHour :: int
  monthlyMinute :: int
  repeatMode :: string
  repeatCount :: int

text \<open>A recurrence pattern is read by the slot expander only; the engine looks at the
  number of patterns.\<close>

record pattern =
  p_type :: string
  p_weekday :: string
  p_occurrence :: int
  p_hour :: int
  p_minute :: int

record profile =
  name :: string
  duration :: int
  timezone :: string
  patterns :: "pattern list"
  automation :: "automation option"

record profileState =
  eventsCreated :: int
  activationStartsAt :: "millis option"
  lastSuccess :: "millis option"
  lastEventId :: "string option"

text \<open>Per-group rate limit state: \<^verbatim>\<open>{ history: [timestamps], backoffIndex, lockUntil }\<close>.\<close>

record groupRate =
  history :: "millis list"
  backoffIndex :: nat
  lockUntil :: "millis option"

record queueItem =
  q_pendingEventId :: string
  q_groupId :: string
  q_priority :: "millis option"

text \<open>
  A timer of \<^verbatim>\<open>scheduledJobs\<close>, by what its callback does: a recheck timer calls
  \<^verbatim>\<open>scheduleJob\<close> again, a publish timer calls \<^verbatim>\<open>executeAutomatedPost\<close>. The
  argument is the \<^verbatim>\<open>setTimeout\<close> delay; \<open>None\<close> is a NaN delay.
\<close>

datatype timer = RecheckTimer int | PublishTimer "int option"

text \<open>What leaves the engine: persistence, notifications and the external publish call.\<close>

datatype effect =
    SavePending
  | SaveState
  | OnMissed string
  | OnCreated string "string option"
  | CreateEvent string string millis millis

text \<open>Where the queue processor is suspended (\<^verbatim>\<open>await\<close>).\<close>

datatype suspension = NotSuspended | AwaitPublish string | AwaitPause

record engine =
  pendingEvents :: "pendingEvent list"
  deletedEvents :: "pendingEvent list"
  automationState :: "string \<rightharpoonup> profileState"
  profilesRef :: "(string \<rightharpoonup> (string \<rightharpoonup> profile)) option"
  knownGroupIds :: "string set option"
  groups :: "string \<rightharpoonup> groupRate"
  queue :: "queueItem list"
  processing :: bool
  processTimeout :: "int option"
  suspended :: suspension
  scheduledJobs :: "string \<rightharpoonup> timer"
  effects :: "effect list"

definition emit :: "effect \<Rightarrow> engine \<Rightarrow> engine" where
  "emit e s = s\<lparr>effects := effects s @ [e]\<rparr>"

definition savePendingEvents :: "engine \<Rightarrow> engine" where
  "savePendingEvents s = emit SavePending s"

definition saveAutomationState :: "engine \<Rightarrow> engine" where
  "saveAutomationState s = emit SaveState s"

text \<open>\<^verbatim>\<open>profilesRef?.[groupId]?.profiles?.[profileKey]\<close>\<close>

definition lookupProfile :: "engine \<Rightarrow> string \<Rightarrow> string \<Rightarrow> profile option" where
  "lookupProfile s g k =
     (case profilesRef s of
        None \<Rightarrow> None
      | Some groupsMap \<Rightarrow> (case groupsMap g of None \<Rightarrow> None | Some ps \<Rightarrow> ps k))"

section \<open>Calendar arithmetic of the Date object\<close>

text \<open>
  The monthly timing mode uses the local-time part of the JavaScript \<^verbatim>\<open>Date\<close> object:
  \<^verbatim>\<open>getFullYear\<close>, \<^verbatim>\<open>getMonth\<close>, \<^verbatim>\<open>getDate\<close>, the seven-argument
  constructor, \<^verbatim>\<open>setMonth\<close> and \<^verbatim>\<open>setDate\<close>. They are modelled after the
  language definition (\<^verbatim>\<open>MakeDay\<close>, \<^verbatim>\<open>MakeTime\<close>, \<^verbatim>\<open>MakeDate\<close>), with the days
  of the proleptic Gregorian calendar counted from 1970-01-01. The host's time zone is a
  fixed offset \<open>tz\<close> from UTC, in milliseconds; months are numbered from 0 as in the source.
\<close>

definition msPerDay :: int where
  "msPerDay = 86400000"

definition Day :: "millis \<Rightarrow> int" where
  "Day t = t div msPerDay"

definition TimeWithinDay :: "millis \<Rightarrow> int" where
  "TimeWithinDay t = t mod msPerDay"

definition isLeap :: "int \<Rightarrow> bool" where
  "isLeap y = (y mod 4 = 0 \<and> (y mod 100 \<noteq> 0 \<or> y mod 400 = 0))"

definition DayFromYear :: "int \<Rightarrow> int" where
  "DayFromYear y =
     365 * (y - 1970) + (y - 1969) div 4 - (y - 1901) div 100 + (y - 1601) div 400"

definition monthLengths :: "int \<Rightarrow> int list" where
  "monthLengths y = [31, if isLeap y then 29 else 28, 31, 30, 31, 30, 31, 31, 30, 31, 30, 31]"

text \<open>Day number of the first day of month \<open>m\<close> (0..11) of year \<open>y\<close>.\<close>

definition DayFromMonth :: "int \<Rightarrow> int \<Rightarrow> int" where
  "DayFromMonth y m = DayFromYear y + sum_list (take (nat m) (monthLengths y))"

text \<open>
  \<^verbatim>\<open>YearFromTime\<close>: the year whose first day is the last one not after the given day.
  The estimate from the mean year length is off by at most one.
\<close>

definition YearFromDay :: "int \<Rightarrow> int" where
  "YearFromDay d =
     (let y = 1970 + (d * 400) div 146097 in
      if d < DayFromYear y then y - 1
      else if DayFromYear (y + 1) \<le> d then y + 1
      else y)"

fun monthIn :: "int list \<Rightarrow> int \<Rightarrow> int \<Rightarrow> int \<times> int" where
  "monthIn [] m r = (m, r)"
| "monthIn (l # ls) m r = (if r < l then (m, r) else monthIn ls (m + 1) (r - l))"

text \<open>Month (0..11) and day of the month (1..31) of a day number.\<close>

definition MonthDateFromDay :: "int \<Rightarrow> int \<times> int" where
  "MonthDateFromDay d =
     (let y = YearFromDay d;
          (m, r) = monthIn (monthLengths y) 0 (d - DayFromYear y)
      in (m, r + 1))"

definition LocalTime :: "int \<Rightarrow> millis \<Rightarrow> int" where
  "LocalTime tz t = t + tz"

definition UTC :: "int \<Rightarrow> int \<Rightarrow> millis" where
  "UTC tz t = t - tz"

definition getFullYear :: "int \<Rightarrow> millis \<Rightarrow> int" where
  "getFullYear tz t = YearFromDay (Day (LocalTime tz t))"

definition getMonth :: "int \<Rightarrow> millis \<Rightarrow> int" where
  "getMonth tz t = fst (MonthDateFromDay (Day (LocalTime tz t)))"

definition getDate :: "int \<Rightarrow> millis \<Rightarrow> int" where
  "getDate tz t = snd (MonthDateFromDay (Day (LocalTime tz t)))"

text \<open>\<^verbatim>\<open>MakeDay\<close>: a month outside 0..11 carries into the year, a date outside the month
  carries into the neighbouring months.\<close>

definition MakeDay :: "int \<Rightarrow> int \<Rightarrow> int \<Rightarrow> int" where
  "MakeDay y m dt = DayFromMonth (y + m div 12) (m mod 12) + dt - 1"

definition MakeTime :: "int \<Rightarrow> int \<Rightarrow> int \<Rightarrow> int \<Rightarrow> int" where
  "MakeTime h mi sec ms = h * 3600000 + mi * 60000 + sec * 1000 + ms"

definition MakeDate :: "int \<Rightarrow> int \<Rightarrow> int" where
  "MakeDate day time = day * msPerDay + time"

text \<open>\<^verbatim>\<open>new Date(year, month, date, hours, minutes, 0, 0)\<close>; a year 0..99 means 1900 + year.\<close>

definition newDate :: "int \<Rightarrow> int \<Rightarrow> int \<Rightarrow> int \<Rightarrow> int \<Rightarrow> int \<Rightarrow> millis" where
  "newDate tz y m dt h mi =
     (let yr = (if 0 \<le> y \<and> y \<le> 99 then 1900 + y else y)
      in UTC tz (MakeDate (MakeDay yr m dt) (MakeTime h mi 0 0)))"

definition setMonth :: "int \<Rightarrow> millis \<Rightarrow> int \<Rightarrow> millis" where
  "setMonth tz t m =
     (let l = LocalTime tz t
      in UTC tz (MakeDate (MakeDay (YearFromDay (Day l)) m (snd (MonthDateFromDay (Day l))))
                          (TimeWithinDay l)))"

definition setDate :: "int \<Rightarrow> millis \<Rightarrow> int \<Rightarrow> millis" where
  "setDate tz t dt =
     (let l = LocalTime tz t
      in UTC tz (MakeDate (MakeDay (YearFromDay (Day l)) (fst (MonthDateFromDay (Day l))) dt)
                          (TimeWithinDay l)))"

text \<open>\<^verbatim>\<open>new Date(year, month + 1, 0).getDate()\<close>\<close>

definition lastDayOfMonth :: "int \<Rightarrow> int \<Rightarrow> int \<Rightarrow> int" where
  "lastDayOfMonth tz y m = getDate tz (newDate tz y (m + 1) 0 0 0)"

section \<open>Publish-time calculation\<close>

definition offsetMs :: "automation \<Rightarrow> int" where
  "offsetMs a =
     num_or (daysOffset a) 0 * 24 * 60 * 60 * 1000 +
     num_or (hoursOffset a) 0 * 60 * 60 * 1000 +
     num_or (minutesOffset a) 0 * 60 * 1000"

definition MIN_BUFFER_MS :: int where
  "MIN_BUFFER_MS = 30 * 60 * 1000"

text \<open>The monthly branch, shared word for word by \<^verbatim>\<open>calculatePublishTime\<close> and
  \<^verbatim>\<open>calculatePendingEvents\<close>.\<close>

definition monthlyPublishTime :: "int \<Rightarrow> automation \<Rightarrow> millis \<Rightarrow> millis" where
  "monthlyPublishTime tz a eventStartTime =
     (let eventMonth = getMonth tz eventStartTime;
          eventYear = getFullYear tz eventStartTime;
          targetDay = num_or (monthlyDay a) 1;
          lastDay = lastDayOfMonth tz eventYear eventMonth;
          publishDay = min targetDay lastDay;
          publishTime = newDate tz eventYear eventMonth publishDay
                          (num_or (monthlyHour a) 12) (num_or (monthlyMinute a) 0)
      in if publishTime \<ge> eventStartTime then
           (let p1 = setMonth tz publishTime (getMonth tz publishTime - 1);
                prevMonthLastDay = lastDayOfMonth tz (getFullYear tz p1) (getMonth tz p1)
            in setDate tz p1 (min targetDay prevMonthLastDay))
         else publishTime)"

text \<open>The hard cap that ends both calculations.\<close>

definition hardCap :: "millis \<Rightarrow> millis \<Rightarrow> millis" where
  "hardCap eventStartTime publishTime =
     (let maxPublishTime = eventStartTime - MIN_BUFFER_MS
      in if publishTime > maxPublishTime then maxPublishTime else publishTime)"

text \<open>The publish time before the cap, by timing mode.\<close>

definition rawPublishTime :: "int \<Rightarrow> automation \<Rightarrow> millis \<Rightarrow> millis" where
  "rawPublishTime tz a eventStartTime =
     (if timingMode a = ''before'' then eventStartTime - offsetMs a
      else if timingMode a = ''monthly'' then monthlyPublishTime tz a eventStartTime
      else eventStartTime - offsetMs a)"

text \<open>\<^verbatim>\<open>calculatePublishTime(eventStartsAt, profile)\<close>; \<open>None\<close> is the null result.\<close>

definition calculatePublishTime :: "int \<Rightarrow> millis \<Rightarrow> profile option \<Rightarrow> millis option" where
  "calculatePublishTime tz eventStartTime prof =
     (case prof of
        None \<Rightarrow> None
      | Some p \<Rightarrow>
         (case automation p of
            None \<Rightarrow> None
          | Some a \<Rightarrow>
             if \<not> enabled a then None
             else Some (hardCap eventStartTime (rawPublishTime tz a eventStartTime))))"

section \<open>Small helpers for arrays\<close>

text \<open>\<^verbatim>\<open>Array.prototype.findIndex\<close>; \<open>None\<close> is the result -1.\<close>

fun findIndex :: "('a \<Rightarrow> bool) \<Rightarrow> 'a list \<Rightarrow> nat option" where
  "findIndex P [] = None"
| "findIndex P (x # xs) = (if P x then Some 0 else map_option Suc (findIndex P xs))"

text \<open>\<^verbatim>\<open>pendingEvents.find(e => e.id === pendingEventId)\<close>, as a position.\<close>

definition findPending :: "string \<Rightarrow> engine \<Rightarrow> nat option" where
  "findPending pid s = findIndex (\<lambda>e. id e = pid) (pendingEvents s)"

text \<open>A field assignment on the object at position \<open>i\<close> of \<^verbatim>\<open>pendingEvents\<close>.\<close>

definition modifyPending :: "nat \<Rightarrow> (pendingEvent \<Rightarrow> pendingEvent) \<Rightarrow> engine \<Rightarrow> engine" where
  "modifyPending i f s = s\<lparr>pendingEvents := (pendingEvents s)[i := f (pendingEvents s ! i)]\<rparr>"

text \<open>\<^verbatim>\<open>splice(index, 1)\<close>\<close>

definition removeAt :: "nat \<Rightarrow> 'a list \<Rightarrow> 'a list" where
  "removeAt i xs = take i xs @ drop (Suc i) xs"

fun isPrefixOf :: "string \<Rightarrow> string \<Rightarrow> bool" where
  "isPrefixOf [] ys = True"
| "isPrefixOf (x # xs) [] = False"
| "isPrefixOf (x # xs) (y # ys) = (x = y \<and> isPrefixOf xs ys)"

text \<open>\<^verbatim>\<open>String.prototype.includes\<close>\<close>

fun includesStr :: "string \<Rightarrow> string \<Rightarrow> bool" where
  "includesStr [] sub = (sub = [])"
| "includesStr (c # cs) sub = (isPrefixOf sub (c # cs) \<or> includesStr cs sub)"

text \<open>\<^verbatim>\<open>toLowerCase\<close> on the ASCII letters.\<close>

definition lowerChar :: "char \<Rightarrow> char" where
  "lowerChar c =
     (let n = (of_char c :: nat) in if 65 \<le> n \<and> n \<le> 90 then char_of (n + 32) else c)"

definition toLowerCase :: "string \<Rightarrow> string" where
  "toLowerCase s = map lowerChar s"

section \<open>Rate limiting\<close>

definition EVENT_HOURLY_LIMIT :: nat where
  "EVENT_HOURLY_LIMIT = 10"

definition EVENT_HOURLY_WINDOW_MS :: int where
  "EVENT_HOURLY_WINDOW_MS = 60 * 60 * 1000"

definition BACKOFF_SEQUENCE :: "int list" where
  "BACKOFF_SEQUENCE = [2, 4, 8, 16, 32, 60]"

definition freshGroupRate :: groupRate where
  "freshGroupRate = \<lparr>history = [], backoffIndex = 0, lockUntil = None\<rparr>"

text \<open>\<^verbatim>\<open>getRateLimitState\<close> creates the entry of a group on first use. \<open>rateOf\<close> reads the
  entry it would return, \<open>setRate\<close> stores the entry back.\<close>

definition rateOf :: "engine \<Rightarrow> string \<Rightarrow> groupRate" where
  "rateOf s g = (case groups s g of None \<Rightarrow> freshGroupRate | Some r \<Rightarrow> r)"

definition setRate :: "string \<Rightarrow> groupRate \<Rightarrow> engine \<Rightarrow> engine" where
  "setRate g r s = s\<lparr>groups := (groups s)(g \<mapsto> r)\<rparr>"

definition pruneRateLimitHistory :: "millis \<Rightarrow> groupRate \<Rightarrow> groupRate" where
  "pruneRateLimitHistory now r =
     (let cutoff = now - EVENT_HOURLY_WINDOW_MS
      in r\<lparr>history := filter (\<lambda>ts. ts \<ge> cutoff) (history r)\<rparr>)"

text \<open>Truthiness of \<^verbatim>\<open>state.lockUntil\<close>: null and 0 are falsy.\<close>

definition lockSet :: "groupRate \<Rightarrow> bool" where
  "lockSet r = (case lockUntil r of None \<Rightarrow> False | Some l \<Rightarrow> l \<noteq> 0)"

definition isGroupRateLimited_rate :: "millis \<Rightarrow> groupRate \<Rightarrow> bool \<times> groupRate" where
  "isGroupRateLimited_rate now r =
     (if lockSet r \<and> now < the (lockUntil r) then (True, r)
      else
        (let r1 = (if lockSet r \<and> now \<ge> the (lockUntil r)
                   then r\<lparr>lockUntil := None, backoffIndex := 0\<rparr> else r);
             r2 = pruneRateLimitHistory now r1
         in (length (history r2) \<ge> EVENT_HOURLY_LIMIT, r2)))"

definition isGroupRateLimited :: "millis \<Rightarrow> string \<Rightarrow> engine \<Rightarrow> bool \<times> engine" where
  "isGroupRateLimited now g s =
     (let (b, r) = isGroupRateLimited_rate now (rateOf s g) in (b, setRate g r s))"

text \<open>\<^verbatim>\<open>Math.min(...state.history)\<close> on a non-empty history.\<close>

definition oldestOf :: "millis list \<Rightarrow> millis" where
  "oldestOf h = fold min (tl h) (hd h)"

definition getRateLimitWaitMs_rate :: "millis \<Rightarrow> groupRate \<Rightarrow> int \<times> groupRate" where
  "getRateLimitWaitMs_rate now r =
     (if lockSet r then (max 0 (the (lockUntil r) - now), r)
      else
        (let r1 = pruneRateLimitHistory now r
         in if length (history r1) \<ge> EVENT_HOURLY_LIMIT
            then (max 0 (oldestOf (history r1) + EVENT_HOURLY_WINDOW_MS - now), r1)
            else (0, r1)))"

definition getRateLimitWaitMs :: "millis \<Rightarrow> string \<Rightarrow> engine \<Rightarrow> int \<times> engine" where
  "getRateLimitWaitMs now g s =
     (let (w, r) = getRateLimitWaitMs_rate now (rateOf s g) in (w, setRate g r s))"

definition recordEventCreation_rate :: "millis \<Rightarrow> groupRate \<Rightarrow> groupRate" where
  "recordEventCreation_rate now r =
     (pruneRateLimitHistory now (r\<lparr>history := history r @ [now]\<rparr>))\<lparr>backoffIndex := 0\<rparr>"

definition recordEventCreation :: "millis \<Rightarrow> string \<Rightarrow> engine \<Rightarrow> engine" where
  "recordEventCreation now g s = setRate g (recordEventCreation_rate now (rateOf s g)) s"

text \<open>
  \<^verbatim>\<open>handleRateLimitError\<close>. An index outside \<^verbatim>\<open>BACKOFF_SEQUENCE\<close> reads
  \<^verbatim>\<open>undefined\<close>, the lock becomes NaN, which is falsy like no lock: \<open>None\<close>.
\<close>

definition handleRateLimitError_rate :: "millis \<Rightarrow> groupRate \<Rightarrow> groupRate" where
  "handleRateLimitError_rate now r =
     (let r1 = pruneRateLimitHistory now r
      in if length (history r1) \<ge> EVENT_HOURLY_LIMIT
         then r1\<lparr>lockUntil := Some (oldestOf (history r1) + EVENT_HOURLY_WINDOW_MS)\<rparr>
         else
           (let i = backoffIndex r1;
                lock = (if i < length BACKOFF_SEQUENCE
                        then Some (now + (BACKOFF_SEQUENCE ! i) * 60 * 1000) else None)
            in r1\<lparr>backoffIndex := min (i + 1) (length BACKOFF_SEQUENCE - 1),
                  lockUntil := lock\<rparr>))"

definition handleRateLimitError :: "millis \<Rightarrow> string \<Rightarrow> engine \<Rightarrow> engine" where
  "handleRateLimitError now g s = setRate g (handleRateLimitError_rate now (rateOf s g)) s"

section \<open>Automation state of a profile\<close>

definition getProfileStateKey :: "string \<Rightarrow> string \<Rightarrow> string" where
  "getProfileStateKey g k = g @ ''::'' @ k"

definition freshProfileState :: profileState where
  "freshProfileState =
     \<lparr>eventsCreated = 0, activationStartsAt = None, lastSuccess = None, lastEventId = None\<rparr>"

text \<open>\<^verbatim>\<open>getOrCreateProfileState\<close> returns a reference into \<^verbatim>\<open>automationState.profiles\<close>;
  here it returns the entry and the engine that holds it, and the caller stores the
  updated entry with \<open>putProfileState\<close>.\<close>

definition getOrCreateProfileState :: "string \<Rightarrow> engine \<Rightarrow> profileState \<times> engine" where
  "getOrCreateProfileState key s =
     (case automationState s key of
        Some ps \<Rightarrow> (ps, s)
      | None \<Rightarrow> (freshProfileState, s\<lparr>automationState := (automationState s)(key \<mapsto> freshProfileState)\<rparr>))"

definition putProfileState :: "string \<Rightarrow> profileState \<Rightarrow> engine \<Rightarrow> engine" where
  "putProfileState key ps s = s\<lparr>automationState := (automationState s)(key \<mapsto> ps)\<rparr>"

definition getActivationStartMs :: "profileState \<Rightarrow> millis option" where
  "getActivationStartMs ps = activationStartsAt ps"

definition isKnownGroupId :: "string \<Rightarrow> engine \<Rightarrow> bool" where
  "isKnownGroupId g s = (case knownGroupIds s of None \<Rightarrow> True | Some known \<Rightarrow> g \<in> known)"

section \<open>Resolving event details\<close>

text \<open>Of the resolved details only the fields the engine itself reads are kept.\<close>

record eventDetails =
  d_title :: string
  d_duration :: int
  d_eventStartsAt :: "millis option"
  d_scheduledPublishTime :: "millis option"

text \<open>The details of a pending record that has been found: the profile fields merged with
  the manual overrides.\<close>

definition detailsFor :: "engine \<Rightarrow> pendingEvent \<Rightarrow> eventDetails option" where
  "detailsFor s e =
     (case lookupProfile s (groupId e) (profileKey e) of
        None \<Rightarrow> None
      | Some p \<Rightarrow>
         (let base = (if name p = [] then ''Untitled Event'' else name p);
              ov = manualOverrides e
          in Some \<lparr>d_title = (case ov of
                                 None \<Rightarrow> base
                               | Some v \<Rightarrow> (case ov_title v of None \<Rightarrow> base | Some t \<Rightarrow> t)),
                   d_duration = num_or (case ov of
                                          None \<Rightarrow> 0
                                        | Some v \<Rightarrow> (case ov_durationMinutes v of
                                                       None \<Rightarrow> 0 | Some d \<Rightarrow> d))
                                       (num_or (duration p) 120),
                   d_eventStartsAt = (case ov of
                                        None \<Rightarrow> eventStartsAt e
                                      | Some v \<Rightarrow> (case ov_eventStartsAt v of
                                                     None \<Rightarrow> eventStartsAt e
                                                   | Some t \<Rightarrow> Some t)),
                   d_scheduledPublishTime = scheduledPublishTime e\<rparr>))"

definition resolveEventDetails :: "string \<Rightarrow> engine \<Rightarrow> eventDetails option" where
  "resolveEventDetails pid s =
     (case findPending pid s of
        None \<Rightarrow> None
      | Some i \<Rightarrow> detailsFor s (pendingEvents s ! i))"

section \<open>Queue of rate-limited posts\<close>

text \<open>
  \<^verbatim>\<open>queue.sort((a, b) => a.priority - b.priority)\<close>: a stable sort. A priority that is
  NaN makes the comparator return NaN, which the sort reads as equal.
\<close>

definition priorityBefore :: "queueItem \<Rightarrow> queueItem \<Rightarrow> bool" where
  "priorityBefore a b =
     (case q_priority a of
        None \<Rightarrow> False
      | Some x \<Rightarrow> (case q_priority b of None \<Rightarrow> False | Some y \<Rightarrow> x < y))"

fun insertByPriority :: "queueItem \<Rightarrow> queueItem list \<Rightarrow> queueItem list" where
  "insertByPriority x [] = [x]"
| "insertByPriority x (y # ys) =
     (if priorityBefore y x then y # insertByPriority x ys else x # y # ys)"

definition sortQueue :: "queueItem list \<Rightarrow> queueItem list" where
  "sortQueue xs = foldr insertByPriority xs []"

definition scheduleRetry :: "string \<Rightarrow> engine \<Rightarrow> engine" where
  "scheduleRetry pid s = s\<lparr>scheduledJobs := (scheduledJobs s)(pid \<mapsto> PublishTimer (Some (15 * 60 * 1000)))\<rparr>"

text \<open>
  \<^verbatim>\<open>executeAutomatedPostInternal\<close> up to its \<^verbatim>\<open>await createEventFn(..)\<close>, for the
  object at position \<open>i\<close>. Without resolved details the record is cancelled; without a
  start instant \<^verbatim>\<open>toISOString\<close> throws and the catch block schedules the retry; in both
  cases the function has returned and the queue processor pauses. Otherwise the external
  call is under way.
\<close>

definition executeAutomatedPostInternal_begin :: "nat \<Rightarrow> engine \<Rightarrow> engine" where
  "executeAutomatedPostInternal_begin i s =
     (let e = pendingEvents s ! i in
      case resolveEventDetails (id e) s of
        None \<Rightarrow>
          (savePendingEvents (modifyPending i (\<lambda>e. e\<lparr>status := ''cancelled''\<rparr>) s))
            \<lparr>suspended := AwaitPause\<rparr>
      | Some d \<Rightarrow>
          (case eventStartsAt e of
             None \<Rightarrow> (scheduleRetry (id e) s)\<lparr>suspended := AwaitPause\<rparr>
           | Some st \<Rightarrow>
               (emit (CreateEvent (groupId e) (d_title d) st
                        (st + num_or (d_duration d) 120 * 60 * 1000)) s)
                 \<lparr>suspended := AwaitPublish (id e)\<rparr>))"

text \<open>After the while loop of \<^verbatim>\<open>processQueue\<close>: the finally block, then the follow-up run
  when items remain.\<close>

definition processQueue_exit :: "engine \<Rightarrow> engine" where
  "processQueue_exit s =
     (let s1 = s\<lparr>processing := False\<rparr>
      in if queue s1 \<noteq> [] then s1\<lparr>processTimeout := Some 1000\<rparr> else s1)"

text \<open>
  The while loop of \<^verbatim>\<open>processQueue\<close>, run until the processor leaves the loop or is
  suspended in an \<^verbatim>\<open>await\<close>. The list argument is the queue.
\<close>

fun processQueue_loop :: "millis \<Rightarrow> queueItem list \<Rightarrow> engine \<Rightarrow> engine" where
  "processQueue_loop now [] s = processQueue_exit (s\<lparr>queue := []\<rparr>)"
| "processQueue_loop now (item # rest) s =
     (let (limited, s1) = isGroupRateLimited now (q_groupId item) s in
      if limited then
        (let (waitMs, s2) = getRateLimitWaitMs now (q_groupId item) s1
         in processQueue_exit (s2\<lparr>queue := item # rest, processTimeout := Some (waitMs + 100)\<rparr>))
      else
        (case findPending (q_pendingEventId item) s1 of
           None \<Rightarrow> processQueue_loop now rest s1
         | Some i \<Rightarrow>
            (let st = status (pendingEvents s1 ! i) in
             if st \<noteq> ''scheduled'' \<and> st \<noteq> ''missed'' \<and> st \<noteq> ''queued''
             then processQueue_loop now rest s1
             else
               (let s2 = (if st = ''queued''
                          then modifyPending i (\<lambda>e. e\<lparr>status := ''scheduled''\<rparr>) s1 else s1)
                in executeAutomatedPostInternal_begin i (s2\<lparr>queue := rest\<rparr>)))))"

definition processQueue :: "millis \<Rightarrow> engine \<Rightarrow> engine" where
  "processQueue now s =
     (if processing s then s
      else if queue s = [] then s
      else processQueue_loop now (queue s) (s\<lparr>processing := True\<rparr>))"

definition queueEventPost :: "millis \<Rightarrow> string \<Rightarrow> string \<Rightarrow> millis option \<Rightarrow> engine \<Rightarrow> engine" where
  "queueEventPost now pid g priority s =
     (if list_ex (\<lambda>item. q_pendingEventId item = pid) (queue s) then s
      else processQueue now
             (s\<lparr>queue := sortQueue (queue s @
                   [\<lparr>q_pendingEventId = pid, q_groupId = g, q_priority = priority\<rparr>])\<rparr>))"

definition dequeueEventPost :: "string \<Rightarrow> engine \<Rightarrow> engine" where
  "dequeueEventPost pid s =
     (case findIndex (\<lambda>item. q_pendingEventId item = pid) (queue s) of
        None \<Rightarrow> s
      | Some i \<Rightarrow> s\<lparr>queue := removeAt i (queue s)\<rparr>)"

text \<open>\<^verbatim>\<open>executeAutomatedPost\<close>, the public wrapper: it only enqueues.\<close>

definition executeAutomatedPost :: "millis \<Rightarrow> nat \<Rightarrow> engine \<Rightarrow> engine" where
  "executeAutomatedPost now i s =
     (let e = pendingEvents s ! i
      in queueEventPost now (id e) (groupId e) (eventStartsAt e) s)"

section \<open>Publish worker: the outcome of the external call\<close>

datatype publishResult =
    PublishOk "string option"
  | PublishFailed "string option" "int option" "string option"
  | PublishThrew

definition isRateLimit :: "publishResult \<Rightarrow> bool" where
  "isRateLimit r =
     (case r of
        PublishFailed code st msg \<Rightarrow>
          code = Some ''UPCOMING_LIMIT'' \<or> st = Some 429 \<or>
          (truthy msg \<and> includesStr (toLowerCase (the msg)) ''rate limit'')
      | _ \<Rightarrow> False)"

text \<open>
  \<^verbatim>\<open>executeAutomatedPostInternal\<close> from the return of \<^verbatim>\<open>createEventFn\<close> on, for the
  object at position \<open>i\<close>. The worker is only ever called from the queue processor, which
  pauses once the worker has returned.
\<close>

definition executeAutomatedPostInternal_done ::
    "millis \<Rightarrow> nat \<Rightarrow> publishResult \<Rightarrow> engine \<Rightarrow> engine" where
  "executeAutomatedPostInternal_done now i r s =
     (let e = pendingEvents s ! i in
      (case r of
         PublishOk rid \<Rightarrow>
           (let s1 = recordEventCreation now (groupId e) s;
                s2 = modifyPending i
                       (\<lambda>e. e\<lparr>eventId := or_else rid (or_else (eventId e) None),
                               status := ''published''\<rparr>) s1;
                key = getProfileStateKey (groupId e) (profileKey e);
                (ps, s3) = getOrCreateProfileState key s2;
                ps1 = ps\<lparr>eventsCreated := eventsCreated ps + 1\<rparr>;
                ps2 = (if getActivationStartMs ps1 = None \<and> eventStartsAt e \<noteq> None
                       then ps1\<lparr>activationStartsAt := eventStartsAt e\<rparr> else ps1);
                ps3 = ps2\<lparr>lastSuccess := Some now, lastEventId := rid\<rparr>;
                s4 = savePendingEvents (saveAutomationState (putProfileState key ps3 s3))
            in emit (OnCreated (id e) rid) s4)
       | PublishFailed code st msg \<Rightarrow>
           (if isRateLimit r then
              (let s1 = handleRateLimitError now (groupId e) s;
                   s2 = savePendingEvents
                          (modifyPending i (\<lambda>e. e\<lparr>status := ''queued'', queuedAt := Some now\<rparr>) s1)
               in queueEventPost now (id e) (groupId e) (eventStartsAt e) s2)
            else scheduleRetry (id e) s)
       | PublishThrew \<Rightarrow> scheduleRetry (id e) s)
      \<lparr>suspended := AwaitPause\<rparr>)"

text \<open>The 100 ms pause of the queue processor is over: the while loop goes on.\<close>

definition pauseCompleted :: "millis \<Rightarrow> engine \<Rightarrow> engine" where
  "pauseCompleted now s = processQueue_loop now (queue s) (s\<lparr>suspended := NotSuspended\<rparr>)"

section \<open>Scheduler\<close>

definition ONE_DAY_MS :: int where
  "ONE_DAY_MS = 24 * 60 * 60 * 1000"

definition EIGHT_HOURS_MS :: int where
  "EIGHT_HOURS_MS = 8 * 60 * 60 * 1000"

definition TWO_HOURS_MS :: int where
  "TWO_HOURS_MS = 2 * 60 * 60 * 1000"

definition getRecheckIntervalMs :: "int \<Rightarrow> int option" where
  "getRecheckIntervalMs delayMs =
     (if delayMs > 7 * ONE_DAY_MS then Some ONE_DAY_MS
      else if delayMs > 2 * ONE_DAY_MS then Some EIGHT_HOURS_MS
      else if delayMs > ONE_DAY_MS then Some TWO_HOURS_MS
      else None)"

definition setJob :: "string \<Rightarrow> timer \<Rightarrow> engine \<Rightarrow> engine" where
  "setJob pid t s = s\<lparr>scheduledJobs := (scheduledJobs s)(pid \<mapsto> t)\<rparr>"

text \<open>
  \<^verbatim>\<open>scheduleJob(pendingEvent)\<close> for the object at position \<open>i\<close>. A publish time that
  does not parse gives a NaN delay: every comparison is false and the publish timer is set
  with that delay.
\<close>

definition scheduleJob :: "millis \<Rightarrow> nat \<Rightarrow> engine \<Rightarrow> engine" where
  "scheduleJob now i s =
     (let e = pendingEvents s ! i in
      case scheduledPublishTime e of
        None \<Rightarrow> setJob (id e) (PublishTimer None) s
      | Some publishTime \<Rightarrow>
         (let delay = publishTime - now in
          if delay \<le> 0 then
            emit (OnMissed (id e))
              (savePendingEvents
                 (modifyPending i (\<lambda>e. e\<lparr>status := ''missed'', missedAt := Some now\<rparr>) s))
          else
            (case getRecheckIntervalMs delay of
               Some recheckIntervalMs \<Rightarrow>
                 (if recheckIntervalMs \<noteq> 0
                  then setJob (id e) (RecheckTimer recheckIntervalMs) s
                  else setJob (id e) (PublishTimer (Some delay)) s)
             | None \<Rightarrow> setJob (id e) (PublishTimer (Some delay)) s)))"

text \<open>The callback of a timer, for the object at position \<open>i\<close> that the closure holds.\<close>

fun timerCallback :: "timer \<Rightarrow> millis \<Rightarrow> nat \<Rightarrow> engine \<Rightarrow> engine" where
  "timerCallback (RecheckTimer d) now i s = scheduleJob now i s"
| "timerCallback (PublishTimer d) now i s = executeAutomatedPost now i s"

definition cancelJob :: "string \<Rightarrow> engine \<Rightarrow> engine" where
  "cancelJob pid s =
     dequeueEventPost pid
       (case scheduledJobs s pid of
          None \<Rightarrow> s
        | Some t \<Rightarrow> s\<lparr>scheduledJobs := (scheduledJobs s)(pid := None)\<rparr>)"

section \<open>Control actions on a pending event\<close>

definition ACTIVE_PENDING_STATUSES :: "string set" where
  "ACTIVE_PENDING_STATUSES = {''scheduled'', ''missed'', ''queued''}"

definition hasActivePendingEvents :: "string \<Rightarrow> string \<Rightarrow> engine \<Rightarrow> bool" where
  "hasActivePendingEvents g k s =
     (if g = [] \<or> k = [] then False
      else list_ex (\<lambda>e. groupId e = g \<and> profileKey e = k \<and> status e \<in> ACTIVE_PENDING_STATUSES)
             (pendingEvents s))"

definition ofProfile :: "string \<Rightarrow> string \<Rightarrow> pendingEvent \<Rightarrow> bool" where
  "ofProfile g k e = (groupId e = g \<and> profileKey e = k)"

definition clearDeletedEventsForProfile :: "string \<Rightarrow> string \<Rightarrow> engine \<Rightarrow> nat \<times> engine" where
  "clearDeletedEventsForProfile g k s =
     (let kept = filter (\<lambda>e. \<not> ofProfile g k e) (deletedEvents s)
      in (length (deletedEvents s) - length kept, s\<lparr>deletedEvents := kept\<rparr>))"

definition clearProfileState :: "string \<Rightarrow> string \<Rightarrow> engine \<Rightarrow> bool \<times> engine" where
  "clearProfileState g k s =
     (let key = getProfileStateKey g k in
      case automationState s key of
        None \<Rightarrow> (False, s)
      | Some ps \<Rightarrow> (True, saveAutomationState (s\<lparr>automationState := (automationState s)(key := None)\<rparr>)))"

text \<open>
  What \<^verbatim>\<open>handleMissedEvent\<close> resolves to: \<^verbatim>\<open>{ ok: false, error: { message } }\<close>,
  \<^verbatim>\<open>{ ok: true }\<close>, \<^verbatim>\<open>{ ok: true, automationCleared, groupId, profileKey }\<close>, or a
  rejection when \<^verbatim>\<open>toISOString\<close> throws on an invalid date.
\<close>

datatype actionResult =
    Failure string
  | OkResult
  | OkCancelled bool string string
  | Rejected

definition reschedulePublishTime :: "millis \<Rightarrow> automation \<Rightarrow> millis option \<Rightarrow> millis option" where
  "reschedulePublishTime now a start =
     (if timingMode a = ''before'' then
        (case start of
           None \<Rightarrow> None
         | Some st \<Rightarrow>
            (let newPublishTime = st - offsetMs a
             in if newPublishTime \<le> now then Some (now + 5 * 60 * 1000) else Some newPublishTime))
      else Some (now + 5 * 60 * 1000))"

definition handleMissedEvent :: "millis \<Rightarrow> string \<Rightarrow> string \<Rightarrow> engine \<Rightarrow> actionResult \<times> engine" where
  "handleMissedEvent now pid action s =
     (case findPending pid s of
        None \<Rightarrow> (Failure ''Pending event not found'', s)
      | Some eventIndex \<Rightarrow>
         (let pendingEvent = pendingEvents s ! eventIndex in
          if action = ''postNow'' then
            (if status pendingEvent = ''queued''
             then (Failure ''Event is queued waiting for rate limits to clear. Please wait.'', s)
             else (OkResult,
                   executeAutomatedPost now eventIndex
                     (modifyPending eventIndex (\<lambda>e. e\<lparr>status := ''scheduled''\<rparr>) s)))
          else if action = ''reschedule'' then
            (case lookupProfile s (groupId pendingEvent) (profileKey pendingEvent) of
               None \<Rightarrow> (Failure ''Profile not found or automation disabled'', s)
             | Some prof \<Rightarrow>
                (case automation prof of
                   None \<Rightarrow> (Failure ''Profile not found or automation disabled'', s)
                 | Some a \<Rightarrow>
                    if \<not> enabled a then (Failure ''Profile not found or automation disabled'', s)
                    else
                      (case reschedulePublishTime now a (eventStartsAt pendingEvent) of
                         None \<Rightarrow> (Rejected, s)
                       | Some newPublishTime \<Rightarrow>
                          (OkResult,
                           scheduleJob now eventIndex
                             (savePendingEvents
                                (modifyPending eventIndex
                                   (\<lambda>e. e\<lparr>scheduledPublishTime := Some newPublishTime,
                                           status := ''scheduled'',
                                           missedAt := None\<rparr>) s))))))
          else if action = ''cancel'' then
            (let g = groupId pendingEvent;
                 k = profileKey pendingEvent;
                 s1 = cancelJob pid s;
                 deletedEvent = (pendingEvents s1 ! eventIndex)\<lparr>status := ''deleted'', deletedAt := Some now\<rparr>;
                 s2 = s1\<lparr>pendingEvents := removeAt eventIndex (pendingEvents s1),
                         deletedEvents := deletedEvents s1 @ [deletedEvent]\<rparr>
             in if \<not> hasActivePendingEvents g k s2 then
                  (let (removed, s3) = clearDeletedEventsForProfile g k s2;
                       (stateCleared, s4) = clearProfileState g k s3
                   in (OkCancelled (removed > 0 \<or> stateCleared) g k, savePendingEvents s4))
                else (OkCancelled False g k, savePendingEvents s2))
          else (Failure ''Unknown action'', s)))"

section \<open>Seeding the anchor from a manual event\<close>

text \<open>\<^verbatim>\<open>recordManualEvent(groupId, profileKey, eventStartsAt)\<close>; the start is given as
  \<^verbatim>\<open>parseEventStartMs\<close> reads it.\<close>

definition recordManualEvent :: "string \<Rightarrow> string \<Rightarrow> millis option \<Rightarrow> engine \<Rightarrow> bool \<times> engine" where
  "recordManualEvent g k startsAt s =
     (if \<not> isKnownGroupId g s then (False, s)
      else
        (case startsAt of
           None \<Rightarrow> (False, s)
         | Some eventStartMs \<Rightarrow>
            (let key = getProfileStateKey g k;
                 (ps, s1) = getOrCreateProfileState key s;
                 existingStartMs = getActivationStartMs ps
             in if existingStartMs \<noteq> None \<and> the existingStartMs \<le> eventStartMs then (False, s1)
                else (True, saveAutomationState
                              (putProfileState key (ps\<lparr>activationStartsAt := Some eventStartMs\<rparr>) s1)))))"

section \<open>Numbers and strings of the slot key\<close>

text \<open>
  \<^verbatim>\<open>Number(string)\<close> follows the string numeric literal grammar of the language:
  white space is trimmed and an empty rest is 0; then comes a binary, octal or hexadecimal
  integer (\<^verbatim>\<open>0b\<close>, \<^verbatim>\<open>0o\<close>, \<^verbatim>\<open>0x\<close>, unsigned) or a decimal literal with an optional sign,
  an optional fraction and an optional exponent, or \<^verbatim>\<open>Infinity\<close>; everything else is NaN.
  The mathematical value of the literal is rounded to the nearest double, ties to even; a
  finite double is kept as the rational it denotes. Strings are ASCII here, so of the white space characters only
  TAB, LF, VT, FF, CR and SPACE occur.
\<close>

datatype jsNumber = NotANumber | Infinite | Finite rat

definition isStrWhiteSpace :: "char \<Rightarrow> bool" where
  "isStrWhiteSpace c = ((of_char c :: nat) \<in> {9, 10, 11, 12, 13, 32})"

definition trimWs :: "string \<Rightarrow> string" where
  "trimWs s = rev (dropWhile isStrWhiteSpace (rev (dropWhile isStrWhiteSpace s)))"

definition isDigit :: "char \<Rightarrow> bool" where
  "isDigit c = (48 \<le> (of_char c :: nat) \<and> (of_char c :: nat) \<le> 57)"

definition digitVal :: "char \<Rightarrow> nat" where
  "digitVal c = of_char c - 48"

definition natOfDigits :: "string \<Rightarrow> nat" where
  "natOfDigits ds = foldl (\<lambda>a c. a * 10 + digitVal c) 0 ds"

text \<open>Value of a digit in a radix up to 16, if it is one.\<close>

definition radixDigit :: "nat \<Rightarrow> char \<Rightarrow> nat option" where
  "radixDigit base c =
     (let n = (of_char c :: nat);
          v = (if 48 \<le> n \<and> n \<le> 57 then Some (n - 48)
               else if 97 \<le> n \<and> n \<le> 102 then Some (n - 87)
               else if 65 \<le> n \<and> n \<le> 70 then Some (n - 55)
               else None)
      in case v of None \<Rightarrow> None | Some d \<Rightarrow> if d < base then Some d else None)"

text \<open>
  Rounding to a double. \<open>exponentOf r\<close> is the integer \<open>e\<close> with \<open>2^e \<le> r < 2^(e+1)\<close> for a
  positive \<open>r\<close>, found from the bit lengths of numerator and denominator. A double has 53
  significant bits, so the doubles around \<open>r\<close> are the multiples of \<open>2^(e-52)\<close>; below
  \<open>2^-1022\<close> the spacing stays \<open>2^-1074\<close>. A result of \<open>2^1024\<close> or more is an infinity.
\<close>

definition exponentOf :: "rat \<Rightarrow> int" where
  "exponentOf r =
     (let (p, q) = quotient_of r;
          d = bitlen p - bitlen q
      in if 2 powi d \<le> r then d else d - 1)"

definition roundHalfEven :: "rat \<Rightarrow> int" where
  "roundHalfEven x =
     (let f = \<lfloor>x\<rfloor>; fr = x - of_int f
      in if fr < 1 / 2 then f else if fr > 1 / 2 then f + 1 else if even f then f else f + 1)"

definition roundToDouble :: "rat \<Rightarrow> jsNumber" where
  "roundToDouble v =
     (if v = 0 then Finite 0
      else (let e = max (exponentOf \<bar>v\<bar>) (- 1022);
                ulp = 2 powi (e - 52);
                m = of_int (roundHalfEven (\<bar>v\<bar> / ulp)) * ulp
            in if m \<ge> 2 ^ 1024 then Infinite else Finite (sgn v * m)))"

definition parseRadix :: "nat \<Rightarrow> string \<Rightarrow> jsNumber" where
  "parseRadix base ds =
     (if ds = [] \<or> list_ex (\<lambda>c. radixDigit base c = None) ds then NotANumber
      else roundToDouble (of_nat (foldl (\<lambda>a c. a * base + the (radixDigit base c)) 0 ds)))"

definition parseNonDecimal :: "string \<Rightarrow> jsNumber option" where
  "parseNonDecimal s =
     (case s of
        z # c # ds \<Rightarrow>
          if z = CHR ''0'' \<and> (c = CHR ''x'' \<or> c = CHR ''X'') then Some (parseRadix 16 ds)
          else if z = CHR ''0'' \<and> (c = CHR ''o'' \<or> c = CHR ''O'') then Some (parseRadix 8 ds)
          else if z = CHR ''0'' \<and> (c = CHR ''b'' \<or> c = CHR ''B'') then Some (parseRadix 2 ds)
          else None
      | _ \<Rightarrow> None)"

definition parseExponent :: "string \<Rightarrow> int option" where
  "parseExponent r =
     (case r of
        [] \<Rightarrow> Some 0
      | c # t \<Rightarrow>
         if c = CHR ''e'' \<or> c = CHR ''E'' then
           (let (sg, ds) = (case t of
                              [] \<Rightarrow> (1, t)
                            | x # u \<Rightarrow> if x = CHR ''+'' then (1, u)
                                       else if x = CHR ''-'' then (- 1, u) else (1, t))
            in if ds \<noteq> [] \<and> list_all isDigit ds then Some (sg * int (natOfDigits ds)) else None)
         else None)"

definition parseUnsignedDecimal :: "string \<Rightarrow> jsNumber" where
  "parseUnsignedDecimal s =
     (if s = ''Infinity'' then Infinite
      else
        (let ip = takeWhile isDigit s;
             r1 = dropWhile isDigit s;
             (fp, r2) = (case r1 of
                           [] \<Rightarrow> ([], r1)
                         | c # t \<Rightarrow> if c = CHR ''.''
                                    then (takeWhile isDigit t, dropWhile isDigit t)
                                    else ([], r1))
         in if ip = [] \<and> fp = [] then NotANumber
            else (case parseExponent r2 of
                    None \<Rightarrow> NotANumber
                  | Some ex \<Rightarrow>
                      roundToDouble ((of_nat (natOfDigits ip) +
                                   of_nat (natOfDigits fp) / 10 ^ length fp) * 10 powi ex))))"

definition negateNumber :: "jsNumber \<Rightarrow> jsNumber" where
  "negateNumber n = (case n of Finite v \<Rightarrow> Finite (- v) | other \<Rightarrow> other)"

definition parseDecimal :: "string \<Rightarrow> jsNumber" where
  "parseDecimal s =
     (case s of
        [] \<Rightarrow> parseUnsignedDecimal s
      | c # t \<Rightarrow> if c = CHR ''+'' then parseUnsignedDecimal t
                 else if c = CHR ''-'' then negateNumber (parseUnsignedDecimal t)
                 else parseUnsignedDecimal s)"

definition Number :: "string \<Rightarrow> jsNumber" where
  "Number s =
     (let t = trimWs s in
      if t = [] then Finite 0
      else (case parseNonDecimal t of Some n \<Rightarrow> n | None \<Rightarrow> parseDecimal t))"

text \<open>\<^verbatim>\<open>String.prototype.split\<close> with a one-character separator.\<close>

fun splitOn :: "char \<Rightarrow> string \<Rightarrow> string list" where
  "splitOn c [] = [[]]"
| "splitOn c (x # xs) =
     (if x = c then [] # splitOn c xs
      else (case splitOn c xs of [] \<Rightarrow> [[x]] | p # ps \<Rightarrow> (x # p) # ps))"

text \<open>Decimal text of an integer, as a template literal prints a millisecond value.\<close>

definition digitChar :: "nat \<Rightarrow> char" where
  "digitChar n = char_of (48 + n)"

fun showNat :: "nat \<Rightarrow> string" where
  "showNat n = (if n < 10 then [digitChar n] else showNat (n div 10) @ [digitChar (n mod 10)])"

declare showNat.simps [simp del]

definition showInt :: "int \<Rightarrow> string" where
  "showInt i = (if i < 0 then CHR ''-'' # showNat (nat (- i)) else showNat (nat i))"

section \<open>Slot keys\<close>

definition buildPendingEventId :: "string \<Rightarrow> string \<Rightarrow> millis option \<Rightarrow> string option" where
  "buildPendingEventId g k startsAt =
     (case startsAt of
        None \<Rightarrow> None
      | Some eventStartMs \<Rightarrow>
          if g = [] \<or> k = [] then None
          else Some (''pending_'' @ g @ ''_'' @ k @ ''_'' @ showInt eventStartMs))"

text \<open>\<^verbatim>\<open>parsePendingEventIdStartMs(value)\<close>; \<open>None\<close> is null.\<close>

definition parsePendingEventIdStartMs :: "string option \<Rightarrow> rat option" where
  "parsePendingEventIdStartMs v =
     (if \<not> truthy v then None
      else (let parts = splitOn (CHR ''_'') (the v);
                lastPart = last parts
            in case Number lastPart of Finite ms \<Rightarrow> Some ms | _ \<Rightarrow> None))"

definition isDeterministicPendingId :: "string option \<Rightarrow> bool" where
  "isDeterministicPendingId v = (parsePendingEventIdStartMs v \<noteq> None)"

text \<open>\<^verbatim>\<open>a ?? b\<close>\<close>

definition nullish :: "'a option \<Rightarrow> 'a option \<Rightarrow> 'a option" where
  "nullish a b = (case a of None \<Rightarrow> b | Some x \<Rightarrow> Some x)"

definition getPendingSlotStartMs :: "pendingEvent \<Rightarrow> rat option" where
  "getPendingSlotStartMs e =
     nullish (parsePendingEventIdStartMs (slotKey e)) (parsePendingEventIdStartMs (Some (id e)))"

definition overrideStart :: "pendingEvent \<Rightarrow> millis option" where
  "overrideStart e = (case manualOverrides e of None \<Rightarrow> None | Some ov \<Rightarrow> ov_eventStartsAt ov)"

definition getRestoreStartMs :: "pendingEvent \<Rightarrow> rat option" where
  "getRestoreStartMs e =
     (let slotStartMs = getPendingSlotStartMs e;
          currentStartMs = map_option rat_of_int (eventStartsAt e)
      in if slotStartMs \<noteq> None \<and> currentStartMs \<noteq> None \<and> slotStartMs \<noteq> currentStartMs \<and>
            overrideStart e \<noteq> None
         then slotStartMs
         else nullish currentStartMs slotStartMs)"

definition derivePendingSlotKey :: "pendingEvent \<Rightarrow> string option" where
  "derivePendingSlotKey e =
     (if isDeterministicPendingId (Some (id e)) then Some (id e)
      else buildPendingEventId (groupId e) (profileKey e) (eventStartsAt e))"

definition getPendingSlotKey :: "pendingEvent \<Rightarrow> string option" where
  "getPendingSlotKey e =
     or_else (slotKey e) (or_else (derivePendingSlotKey e) (or_else (Some (id e)) None))"

text \<open>\<^verbatim>\<open>getPendingSlotKeys\<close>: the keys of a set, in insertion order.\<close>

definition getPendingSlotKeys :: "pendingEvent \<Rightarrow> string list" where
  "getPendingSlotKeys e =
     (let primary = getPendingSlotKey e;
          keys1 = (if truthy primary then [the primary] else []);
          current = buildPendingEventId (groupId e) (profileKey e) (eventStartsAt e)
      in if truthy current \<and> the current \<notin> set keys1 then keys1 @ [the current] else keys1)"

text \<open>\<^verbatim>\<open>getEarliestEventStartMs\<close>; a start of 0 is skipped like a missing one.\<close>

definition getEarliestEventStartMs :: "pendingEvent list \<Rightarrow> rat option" where
  "getEarliestEventStartMs events =
     fold (\<lambda>e earliest.
             (case nullish (map_option rat_of_int (eventStartsAt e))
                           (parsePendingEventIdStartMs (Some (id e))) of
                None \<Rightarrow> earliest
              | Some ms \<Rightarrow>
                  if ms = 0 then earliest
                  else if earliest = None \<or> ms < the earliest then Some ms else earliest))
          events None"

section \<open>Slot expansion\<close>

text \<open>
  \<^verbatim>\<open>calculatePendingEvents\<close>. The slot expander \<^verbatim>\<open>generateDateOptionsFromPatterns\<close> is
  an external pure function of the patterns, the clock and the time zone database; its
  result, the start instants in ascending order, is the argument \<open>dateOptions\<close>.

  The publish time of one slot, before the cap. In the after mode the first slot counts
  from the last success (or now), later slots from the previous slot, and a publish time
  past the midpoint between the previous and the next start switches to the before mode;
  the comparison with the midpoint \<open>prev + (next - prev) / 2\<close> is written without the
  division. With an unknown timing mode \<^verbatim>\<open>publishTime\<close> stays undefined and the call
  \<^verbatim>\<open>publishTime.getTime()\<close> throws: \<open>None\<close>.
\<close>

definition slotPublishTime ::
    "int \<Rightarrow> millis \<Rightarrow> profile \<Rightarrow> automation \<Rightarrow> profileState \<Rightarrow> pendingEvent list \<Rightarrow> millis
      \<Rightarrow> millis option" where
  "slotPublishTime tz now prof a ps newPendingEvents eventStartTime =
     (if timingMode a = ''before'' then Some (eventStartTime - offsetMs a)
      else if timingMode a = ''after'' then
        (let durationMs = num_or (duration prof) 120 * 60 * 1000;
             publishTime =
               (if newPendingEvents = []
                then (case lastSuccess ps of None \<Rightarrow> now | Some l \<Rightarrow> l) + durationMs + offsetMs a
                else the (eventStartsAt (last newPendingEvents)) + durationMs + offsetMs a);
             prevEventTime =
               (if newPendingEvents \<noteq> [] then the (eventStartsAt (last newPendingEvents)) else now)
         in if 2 * publishTime > prevEventTime + eventStartTime
            then Some (eventStartTime - offsetMs a)
            else Some publishTime)
      else if timingMode a = ''monthly'' then Some (monthlyPublishTime tz a eventStartTime)
      else None)"

definition newPendingEvent :: "string \<Rightarrow> string \<Rightarrow> millis \<Rightarrow> millis \<Rightarrow> pendingEvent" where
  "newPendingEvent g k eventStartTime publishTime =
     (let key = buildPendingEventId g k (Some eventStartTime)
      in \<lparr>id = (if truthy key then the key
                else ''pending_'' @ g @ ''_'' @ k @ ''_'' @ showInt eventStartTime),
          slotKey = or_else key None,
          groupId = g,
          profileKey = k,
          eventStartsAt = Some eventStartTime,
          scheduledPublishTime = Some publishTime,
          manualOverrides = None,
          status = ''scheduled'',
          missedAt = None,
          queuedAt = None,
          deletedAt = None,
          eventId = None\<rparr>)"

text \<open>The loop over the date options; \<open>None\<close> when it throws.\<close>

fun calculatePendingEvents_loop ::
    "int \<Rightarrow> millis \<Rightarrow> string \<Rightarrow> string \<Rightarrow> profile \<Rightarrow> automation \<Rightarrow> profileState \<Rightarrow> nat
      \<Rightarrow> rat option \<Rightarrow> millis list \<Rightarrow> pendingEvent list \<Rightarrow> pendingEvent list option" where
  "calculatePendingEvents_loop tz now g k prof a ps maxEvents minEventStartMs [] acc = Some acc"
| "calculatePendingEvents_loop tz now g k prof a ps maxEvents minEventStartMs (d # ds) acc =
     (if length acc \<ge> maxEvents then Some acc
      else if repeatMode a = ''count'' \<and>
              eventsCreated ps + int (length acc) + 1 > repeatCount a then Some acc
      else if minEventStartMs \<noteq> None \<and> rat_of_int d \<le> the minEventStartMs
      then calculatePendingEvents_loop tz now g k prof a ps maxEvents minEventStartMs ds acc
      else
        (case slotPublishTime tz now prof a ps acc d of
           None \<Rightarrow> None
         | Some raw \<Rightarrow>
            (let publishTime = hardCap d raw in
             if publishTime \<le> now
             then calculatePendingEvents_loop tz now g k prof a ps maxEvents minEventStartMs ds acc
             else calculatePendingEvents_loop tz now g k prof a ps maxEvents minEventStartMs ds
                    (acc @ [newPendingEvent g k d publishTime]))))"

definition calculatePendingEvents ::
    "int \<Rightarrow> millis \<Rightarrow> millis list \<Rightarrow> string \<Rightarrow> string \<Rightarrow> profile option \<Rightarrow> nat \<Rightarrow> rat option
      \<Rightarrow> engine \<Rightarrow> pendingEvent list option \<times> engine" where
  "calculatePendingEvents tz now dateOptions g k profOpt maxEvents minEventStartMs s =
     (case profOpt of
        None \<Rightarrow> (Some [], s)
      | Some prof \<Rightarrow>
         (case automation prof of
            None \<Rightarrow> (Some [], s)
          | Some a \<Rightarrow>
             if \<not> enabled a \<or> patterns prof = [] then (Some [], s)
             else if dateOptions = [] then (Some [], s)
             else
               (let (ps, s1) = getOrCreateProfileState (getProfileStateKey g k) s in
                if repeatMode a = ''count'' \<and> eventsCreated ps \<ge> repeatCount a then (Some [], s1)
                else (calculatePendingEvents_loop tz now g k prof a ps maxEvents
                        minEventStartMs dateOptions [], s1))))"

text \<open>
  The wording of the specification for the last token of a slot key, "parseable as a
  signed integer": an optional sign followed by one or more decimal digits, and the
  integer it denotes.
\<close>

definition isSignedInteger :: "string \<Rightarrow> bool" where
  "isSignedInteger t =
     (case t of
        [] \<Rightarrow> False
      | c # ds \<Rightarrow> if c = CHR ''-'' \<or> c = CHR ''+'' then ds \<noteq> [] \<and> list_all isDigit ds
                  else list_all isDigit t)"

definition signedIntegerValue :: "string \<Rightarrow> int" where
  "signedIntegerValue t =
     (case t of
        [] \<Rightarrow> 0
      | c # ds \<Rightarrow> if c = CHR ''-'' then - int (natOfDigits ds)
                  else if c = CHR ''+'' then int (natOfDigits ds)
                  else int (natOfDigits t))"

section \<open>Restoring deleted events\<close>

text \<open>
  \<^verbatim>\<open>new Date(ms).toISOString()\<close> for a number: the time value is clipped (a magnitude
  above 8.64e15 is an invalid date, on which \<^verbatim>\<open>toISOString\<close> throws a RangeError: \<open>None\<close>)
  and truncated towards zero.
\<close>

definition toISOString :: "rat \<Rightarrow> millis option" where
  "toISOString v =
     (if \<bar>v\<bar> \<le> 8640000000000000 then Some (if v \<ge> 0 then \<lfloor>v\<rfloor> else \<lceil>v\<rceil>) else None)"

text \<open>\<^verbatim>\<open>event.manualOverrides && Object.keys(event.manualOverrides).length > 0\<close>. A key
  is present exactly when its field is not \<open>None\<close>; a key stored with the value null is not
  among the values of this model.\<close>

definition hasOverrides :: "pendingEvent \<Rightarrow> bool" where
  "hasOverrides e =
     (case manualOverrides e of
        None \<Rightarrow> False
      | Some ov \<Rightarrow> ov_title ov \<noteq> None \<or> ov_eventStartsAt ov \<noteq> None \<or>
                   ov_durationMinutes ov \<noteq> None \<or> ov_other ov \<noteq> [])"

text \<open>The slot keys of the records of a list that satisfy a test.\<close>

definition slotKeysWhere :: "(pendingEvent \<Rightarrow> bool) \<Rightarrow> pendingEvent list \<Rightarrow> string list" where
  "slotKeysWhere P events = concat (map getPendingSlotKeys (filter P events))"

datatype restoreResult = RestoreOk nat | RestoreFailed string | RestoreThrew

text \<open>
  The restored record of one deleted event. Without usable overrides it is a fresh
  auto-generated record; with them it is the deleted object itself, updated. The last
  alternative of the fallback id prints the start milliseconds; of a start with a
  fraction, which only a slot key with such a token gives, the integer part is printed.
\<close>

definition useOverrides :: "pendingEvent \<Rightarrow> rat \<Rightarrow> bool" where
  "useOverrides event restoreStartMs =
     (hasOverrides event \<and> map_option rat_of_int (eventStartsAt event) = Some restoreStartMs)"

definition restoredEvent ::
    "string \<Rightarrow> string \<Rightarrow> pendingEvent \<Rightarrow> rat \<Rightarrow> millis \<Rightarrow> millis \<Rightarrow> pendingEvent" where
  "restoredEvent g k event restoreStartMs restoreStartsAt newPublishTime =
     (let key = buildPendingEventId g k (Some restoreStartsAt);
          fallbackId = or_else key
                         (or_else (Some (id event))
                            (Some (''pending_'' @ g @ ''_'' @ k @ ''_'' @ showInt restoreStartsAt)))
      in if \<not> useOverrides event restoreStartMs then
           \<lparr>id = the fallbackId,
            slotKey = or_else key (or_else (slotKey event) None),
            groupId = g,
            profileKey = k,
            eventStartsAt = Some restoreStartsAt,
            scheduledPublishTime = Some newPublishTime,
            manualOverrides = None,
            status = ''scheduled'',
            missedAt = None,
            queuedAt = None,
            deletedAt = None,
            eventId = None\<rparr>
         else
           event\<lparr>scheduledPublishTime := Some newPublishTime,
                 status := ''scheduled'',
                 missedAt := None,
                 eventStartsAt := (if eventStartsAt event = None then Some restoreStartsAt
                                   else eventStartsAt event),
                 deletedAt := None,
                 queuedAt := None\<rparr>)"

text \<open>
  The loop of \<^verbatim>\<open>restoreDeletedEvents\<close> over the deleted events of the profile, given by
  their positions in \<^verbatim>\<open>deletedEvents\<close>. The state of the loop is the engine, the count
  and the positions to remove. \<open>Inl\<close> is the engine at the moment \<^verbatim>\<open>toISOString\<close> throws.
  With overrides the deleted object itself is updated and pushed, so the entry of
  \<^verbatim>\<open>deletedEvents\<close> changes with it.
\<close>

fun restoreLoop ::
    "int \<Rightarrow> millis \<Rightarrow> string \<Rightarrow> string \<Rightarrow> profile \<Rightarrow> string list \<Rightarrow> string list \<Rightarrow> rat option
      \<Rightarrow> nat list \<Rightarrow> engine \<times> nat \<times> nat list \<Rightarrow> engine + engine \<times> nat \<times> nat list" where
  "restoreLoop tz now g k prof modifiedEventSlots publishedEventSlots anchorMs [] acc = Inr acc"
| "restoreLoop tz now g k prof modifiedEventSlots publishedEventSlots anchorMs (i # rest)
       (s, restoredCount, toRemove) =
     (let event = deletedEvents s ! i;
          eventSlotKeys = getPendingSlotKeys event;
          continue = restoreLoop tz now g k prof modifiedEventSlots publishedEventSlots anchorMs
                       rest (s, restoredCount, toRemove)
      in if list_ex (\<lambda>key. key \<in> set modifiedEventSlots) eventSlotKeys then continue
         else if list_ex (\<lambda>key. key \<in> set publishedEventSlots) eventSlotKeys then continue
         else
           (case getRestoreStartMs event of
              None \<Rightarrow> continue
            | Some restoreStartMs \<Rightarrow>
               if restoreStartMs \<le> rat_of_int now then continue
               else if anchorMs \<noteq> None \<and> restoreStartMs \<le> the anchorMs then continue
               else
                 (case toISOString restoreStartMs of
                    None \<Rightarrow> Inl s
                  | Some restoreStartsAt \<Rightarrow>
                     (case calculatePublishTime tz restoreStartsAt (Some prof) of
                        None \<Rightarrow> continue
                      | Some newPublishTime \<Rightarrow>
                         if \<not> newPublishTime > now then continue
                         else
                           (let r = restoredEvent g k event restoreStartMs restoreStartsAt
                                      newPublishTime;
                                s1 = s\<lparr>deletedEvents :=
                                         (if useOverrides event restoreStartMs
                                          then (deletedEvents s)[i := r] else deletedEvents s),
                                       pendingEvents := pendingEvents s @ [r]\<rparr>;
                                s2 = scheduleJob now (length (pendingEvents s)) s1
                            in restoreLoop tz now g k prof modifiedEventSlots publishedEventSlots
                                 anchorMs rest (s2, restoredCount + 1, toRemove @ [i]))))))"

text \<open>Positions of the elements of a list that satisfy a test.\<close>

definition positionsWhere :: "('a \<Rightarrow> bool) \<Rightarrow> 'a list \<Rightarrow> nat list" where
  "positionsWhere P xs = filter (\<lambda>i. P (xs ! i)) [0 ..< length xs]"

definition removePositions :: "nat list \<Rightarrow> 'a list \<Rightarrow> 'a list" where
  "removePositions ps xs = map (\<lambda>i. xs ! i) (filter (\<lambda>i. i \<notin> set ps) [0 ..< length xs])"

text \<open>After the loop: the restored entries leave \<^verbatim>\<open>deletedEvents\<close> and the store is saved.\<close>

definition restoreFinish :: "engine + engine \<times> nat \<times> nat list \<Rightarrow> restoreResult \<times> engine" where
  "restoreFinish x =
     (case x of
        Inl thrown \<Rightarrow> (RestoreThrew, thrown)
      | Inr (s3, restoredCount, toRemove) \<Rightarrow>
          (RestoreOk restoredCount,
           savePendingEvents (s3\<lparr>deletedEvents := removePositions toRemove (deletedEvents s3)\<rparr>)))"

text \<open>\<^verbatim>\<open>restoreDeletedEvents\<close> from the point where the profile has been found.\<close>

definition restoreWithProfile ::
    "int \<Rightarrow> millis \<Rightarrow> string \<Rightarrow> string \<Rightarrow> profile \<Rightarrow> nat list \<Rightarrow> engine \<Rightarrow> restoreResult \<times> engine" where
  "restoreWithProfile tz now g k prof deletedForProfile s =
     (let key = getProfileStateKey g k;
          (ps, s1) = getOrCreateProfileState key s;
          existingEvents = filter (ofProfile g k) (pendingEvents s1);
          modifiedEventSlots = slotKeysWhere (\<lambda>e. manualOverrides e \<noteq> None) existingEvents;
          publishedEventSlots = slotKeysWhere (\<lambda>e. status e = ''published'') existingEvents;
          stored = map_option rat_of_int (getActivationStartMs ps);
          derived = nullish (getEarliestEventStartMs existingEvents)
                      (getEarliestEventStartMs (filter (ofProfile g k) (deletedEvents s1)));
          anchorMs = (if stored = None then derived else stored);
          seeded = (if stored = None \<and> derived \<noteq> None
                    then (case toISOString (the derived) of
                            None \<Rightarrow> None
                          | Some anchorIso \<Rightarrow>
                              Some (saveAutomationState
                                      (putProfileState key
                                         (ps\<lparr>activationStartsAt := Some anchorIso\<rparr>) s1)))
                    else Some s1)
      in case seeded of
           None \<Rightarrow> (RestoreThrew, s1)
         | Some s2 \<Rightarrow>
            restoreFinish
              (restoreLoop tz now g k prof modifiedEventSlots publishedEventSlots anchorMs
                 deletedForProfile (s2, 0, [])))"

definition restoreDeletedEvents ::
    "int \<Rightarrow> millis \<Rightarrow> string \<Rightarrow> string \<Rightarrow> engine \<Rightarrow> restoreResult \<times> engine" where
  "restoreDeletedEvents tz now g k s =
     (let deletedForProfile = positionsWhere (ofProfile g k) (deletedEvents s) in
      if deletedForProfile = [] then (RestoreOk 0, s)
      else
        (case lookupProfile s g k of
           None \<Rightarrow> (RestoreFailed ''Profile not found'', s)
         | Some prof \<Rightarrow> restoreWithProfile tz now g k prof deletedForProfile s))"

section \<open>Reconciling published records\<close>

text \<open>
  An event of the remote calendar, as \<^verbatim>\<open>reconcilePublishedEvents\<close> reads it. The source
  compares the start texts of remote and pending events for equality; a start text is
  represented by the instant it denotes, so the model covers remote lists that spell an
  instant the way \<^verbatim>\<open>toISOString()\<close> does, as the pending store does. Two different
  spellings of one instant are different keys in the source and cannot be told apart here.
\<close>

record upcomingEvent =
  u_id :: "string option"
  u_startsAtUtc :: "millis option"
  u_eventStartsAt :: "millis option"
  u_title :: "string option"

definition upcomingStart :: "upcomingEvent \<Rightarrow> millis option" where
  "upcomingStart u = nullish (u_startsAtUtc u) (u_eventStartsAt u)"

text \<open>\<^verbatim>\<open>new Set(upcomingEvents.map(event => event?.id).filter(Boolean))\<close>\<close>

definition upcomingIds :: "upcomingEvent list \<Rightarrow> string set" where
  "upcomingIds upcoming = set (map (\<lambda>u. the (u_id u)) (filter (\<lambda>u. truthy (u_id u)) upcoming))"

text \<open>
  The callback of the filter over \<^verbatim>\<open>pendingEvents\<close>, for one record: the record to keep
  (with the event id the callback may have assigned) or \<open>None\<close> to drop it, and whether
  \<^verbatim>\<open>updated\<close> is counted. While the filter runs, \<^verbatim>\<open>pendingEvents\<close> is still the old
  array, so \<^verbatim>\<open>resolveEventDetails\<close> looks the id up in the engine \<open>s\<close> of before the call.
\<close>

definition reconcileOne ::
    "engine \<Rightarrow> string \<Rightarrow> upcomingEvent list \<Rightarrow> pendingEvent \<Rightarrow> pendingEvent option \<times> bool" where
  "reconcileOne s g upcoming event =
     (if groupId event \<noteq> g \<or> status event \<noteq> ''published'' then (Some event, False)
      else if truthy (eventId event) then
        (if the (eventId event) \<in> upcomingIds upcoming then (Some event, False) else (None, False))
      else
        (case eventStartsAt event of
           None \<Rightarrow> (Some event, False)
         | Some startKey \<Rightarrow>
            (let candidates = filter (\<lambda>u. upcomingStart u = Some startKey) upcoming in
             if candidates = [] then (None, False)
             else if length candidates = 1 then
               (let newId = or_else (u_id (hd candidates)) None
                in (Some (event\<lparr>eventId := newId\<rparr>), truthy newId))
             else
               (case resolveEventDetails (id event) s of
                  None \<Rightarrow> (None, False)
                | Some resolved \<Rightarrow>
                   (let expectedTitle = d_title resolved;
                        matching = filter (\<lambda>c. u_title c = Some expectedTitle) candidates
                    in if expectedTitle \<noteq> [] \<and> length matching = 1 then
                         (let newId = or_else (u_id (hd matching)) None
                          in (Some (event\<lparr>eventId := newId\<rparr>), truthy newId))
                       else (None, False))))))"

text \<open>\<^verbatim>\<open>{ ok: false, error: { message } }\<close> or \<^verbatim>\<open>{ ok: true, removed, updated }\<close>\<close>

datatype reconcileResult = ReconcileFailed string | ReconcileOk nat nat

definition reconcilePublishedEvents ::
    "string \<Rightarrow> upcomingEvent list \<Rightarrow> engine \<Rightarrow> reconcileResult \<times> engine" where
  "reconcilePublishedEvents g upcoming s =
     (if g = [] then (ReconcileFailed ''Missing groupId'', s)
      else
        (let outcomes = map (reconcileOne s g upcoming) (pendingEvents s);
             removed = length (filter (\<lambda>r. fst r = None) outcomes);
             updated = length (filter snd outcomes);
             s1 = s\<lparr>pendingEvents := List.map_filter fst outcomes\<rparr>
         in (ReconcileOk removed updated,
             if removed \<noteq> 0 \<or> updated \<noteq> 0 then savePendingEvents s1 else s1)))"

text \<open>
  What a record made by slot expansion looks like: scheduled, without overrides, with a
  publish time after \<open>now\<close> and at least 30 minutes before its start, and with a start
  after \<^verbatim>\<open>minEventStartMs\<close> when one is given.
\<close>

definition expansionRecord :: "millis \<Rightarrow> string \<Rightarrow> string \<Rightarrow> rat option \<Rightarrow> pendingEvent \<Rightarrow> bool" where
  "expansionRecord now g k minEventStartMs e =
     (status e = ''scheduled'' \<and> groupId e = g \<and> profileKey e = k \<and> manualOverrides e = None \<and>
      (case eventStartsAt e of
         None \<Rightarrow> False
       | Some d \<Rightarrow>
          (case scheduledPublishTime e of
             None \<Rightarrow> False
           | Some p \<Rightarrow> p \<le> d - 30 * 60 * 1000 \<and> now < p \<and>
                       (case minEventStartMs of None \<Rightarrow> True | Some m \<Rightarrow> m < rat_of_int d))))"

text \<open>
  The wording of the specification for the monthly mode: the calendar instant (year and
  month of the event start, \<open>min(monthlyDay, last day of that month)\<close>, \<open>monthlyHour\<close>,
  \<open>monthlyMinute\<close>); when it is not strictly before the start, the same in the calendar
  month before.
\<close>

definition spec_monthlyPublishTime :: "int \<Rightarrow> automation \<Rightarrow> millis \<Rightarrow> millis" where
  "spec_monthlyPublishTime tz a eventStart =
     (let y = getFullYear tz eventStart;
          m = getMonth tz eventStart;
          candidate = newDate tz y m (min (monthlyDay a) (lastDayOfMonth tz y m))
                        (monthlyHour a) (monthlyMinute a)
      in if candidate < eventStart then candidate
         else
           (let y1 = (if m = 0 then y - 1 else y);
                m1 = (if m = 0 then 11 else m - 1)
            in newDate tz y1 m1 (min (monthlyDay a) (lastDayOfMonth tz y1 m1))
                 (monthlyHour a) (monthlyMinute a)))"

text \<open>A monthly profile setting that publishes on day 11 at 00:30.\<close>

definition midnightAutomation :: automation where
  "midnightAutomation =
     \<lparr>enabled = True, timingMode = ''monthly'', daysOffset = 0, hoursOffset = 0,
      minutesOffset = 0, monthlyDay = 11, monthlyHour = 0, monthlyMinute = 30,
      repeatMode = ''indefinite'', repeatCount = 10\<rparr>"

text \<open>The start that \<^verbatim>\<open>restoreDeletedEvents\<close> reads off a deleted record is a whole
  number of milliseconds, as every start written by the engine itself is.\<close>

definition wholeRestoreStart :: "pendingEvent \<Rightarrow> bool" where
  "wholeRestoreStart e =
     (case getRestoreStartMs e of None \<Rightarrow> True | Some r \<Rightarrow> r = rat_of_int \<lfloor>r\<rfloor>)"

section \<open>Reading the state and example states\<close>

text \<open>The anchor of a profile: \<^verbatim>\<open>getActivationStartMs\<close> of its automation state, if any.\<close>

definition anchorOf :: "engine \<Rightarrow> string \<Rightarrow> string \<Rightarrow> millis option" where
  "anchorOf s g k =
     (case automationState s (getProfileStateKey g k) of
        None \<Rightarrow> None
      | Some ps \<Rightarrow> getActivationStartMs ps)"

text \<open>The engine right after module load, before any file is read.\<close>

definition emptyEngine :: engine where
  "emptyEngine =
     \<lparr>pendingEvents = [], deletedEvents = [], automationState = Map.empty,
      profilesRef = None, knownGroupIds = None, groups = Map.empty, queue = [],
      processing = False, processTimeout = None, suspended = NotSuspended,
      scheduledJobs = Map.empty, effects = []\<rparr>"

definition anchoredEngine :: engine where
  "anchoredEngine =
     emptyEngine\<lparr>automationState :=
       [''grp::weekly'' \<mapsto> \<lparr>eventsCreated = 1, activationStartsAt = Some 1000,
                              lastSuccess = None, lastEventId = None\<rparr>]\<rparr>"

definition examplePending :: "string \<Rightarrow> string \<Rightarrow> string \<Rightarrow> millis \<Rightarrow> millis \<Rightarrow> string \<Rightarrow> pendingEvent" where
  "examplePending pid g k start publish st =
     \<lparr>id = pid, slotKey = Some pid, groupId = g, profileKey = k,
      eventStartsAt = Some start, scheduledPublishTime = Some publish,
      manualOverrides = None, status = st, missedAt = None, queuedAt = None,
      deletedAt = None, eventId = None\<rparr>"

text \<open>A processor at work on two groups: \<open>grpA\<close> has ten successes inside the last hour,
  \<open>grpB\<close> has one and stands on the third step of the backoff ladder.\<close>

definition busyEngine :: engine where
  "busyEngine =
     emptyEngine
       \<lparr>pendingEvents :=
          [examplePending ''pending_grpA_weekly_20000000'' ''grpA'' ''weekly'' 20000000 10000000 ''scheduled'',
           examplePending ''pending_grpB_weekly_20000000'' ''grpB'' ''weekly'' 20000000 10000000 ''scheduled''],
        groups :=
          [''grpA'' \<mapsto> \<lparr>history = [1000, 7000000, 6500000, 7100000, 7200000, 7300000,
                                      7400000, 7500000, 7600000, 7700000, 7800000],
                           backoffIndex = 0, lockUntil = None\<rparr>,
           ''grpB'' \<mapsto> \<lparr>history = [1000, 7000000], backoffIndex = 2, lockUntil = None\<rparr>],
        processing := True\<rparr>"

text \<open>Five scheduled records whose publish times lie on the five steps of the scheduler.\<close>

definition ladderEngine :: engine where
  "ladderEngine =
     emptyEngine
       \<lparr>pendingEvents :=
          [examplePending ''pending_grpA_weekly_5000000000'' ''grpA'' ''weekly'' 5000000000 900000 ''scheduled'',
           examplePending ''pending_grpA_weekly_6000000000'' ''grpA'' ''weekly'' 6000000000 701000000 ''scheduled'',
           examplePending ''pending_grpA_weekly_7000000000'' ''grpA'' ''weekly'' 7000000000 201000000 ''scheduled'',
           examplePending ''pending_grpA_weekly_8000000000'' ''grpA'' ''weekly'' 8000000000 101000000 ''scheduled'',
           examplePending ''pending_grpA_weekly_9000000000'' ''grpA'' ''weekly'' 9000000000 87400000 ''scheduled'']\<rparr>"

text \<open>A monthly profile that publishes on day 31 at 12:00, and one in the before mode.\<close>

definition monthEndAutomation :: automation where
  "monthEndAutomation =
     \<lparr>enabled = True, timingMode = ''monthly'', daysOffset = 0, hoursOffset = 0,
      minutesOffset = 0, monthlyDay = 31, monthlyHour = 12, monthlyMinute = 0,
      repeatMode = ''indefinite'', repeatCount = 10\<rparr>"

definition monthEndProfile :: profile where
  "monthEndProfile =
     \<lparr>name = ''Monthly meetup'', duration = 120, timezone = ''UTC'',
      patterns = [\<lparr>p_type = ''every'', p_weekday = ''sunday'', p_occurrence = 0,
                   p_hour = 10, p_minute = 0\<rparr>],
      automation = Some monthEndAutomation\<rparr>"

definition threeDaysBefore :: automation where
  "threeDaysBefore =
     \<lparr>enabled = True, timingMode = ''before'', daysOffset = 3, hoursOffset = 0,
      minutesOffset = 0, monthlyDay = 1, monthlyHour = 18, monthlyMinute = 0,
      repeatMode = ''indefinite'', repeatCount = 10\<rparr>"

definition weeklyProfile :: profile where
  "weeklyProfile =
     \<lparr>name = ''Weekly session'', duration = 120, timezone = ''UTC'',
      patterns = [\<lparr>p_type = ''every'', p_weekday = ''friday'', p_occurrence = 0,
                   p_hour = 19, p_minute = 0\<rparr>],
      automation = Some threeDaysBefore\<rparr>"

text \<open>A missed record of the monthly profile whose event starts in under 17 minutes.\<close>

definition missedEngine :: engine where
  "missedEngine =
     emptyEngine
       \<lparr>pendingEvents :=
          [examplePending ''pending_grp_monthly_2000000'' ''grp'' ''monthly'' 2000000 100000 ''missed''],
        profilesRef := Some [''grp'' \<mapsto> [''monthly'' \<mapsto> monthEndProfile]]\<rparr>"

text \<open>A deleted entry whose profile is gone, and a scheduled record of a profile that has no
  anchor, with its publish call under way.\<close>

definition orphanDeletedEngine :: engine where
  "orphanDeletedEngine =
     emptyEngine
       \<lparr>deletedEvents :=
          [examplePending ''pending_grp_weekly_30000000'' ''grp'' ''weekly'' 30000000 20000000 ''deleted'']\<rparr>"

definition unanchoredEngine :: engine where
  "unanchoredEngine =
     emptyEngine
       \<lparr>pendingEvents :=
          [examplePending ''pending_grp_weekly_20000000'' ''grp'' ''weekly'' 20000000 10000000 ''scheduled''],
        profilesRef := Some [''grp'' \<mapsto> [''weekly'' \<mapsto> weeklyProfile]],
        processing := True,
        suspended := AwaitPublish ''pending_grp_weekly_20000000''\<rparr>"

text \<open>
  Two published records of the quiz profile: the first has an event id the remote calendar
  no longer lists, the second has none yet. Two remote events start when the second record
  does; the one titled like the profile is its event.
\<close>

definition twinProfile :: "string \<Rightarrow> profile" where
  "twinProfile title =
     \<lparr>name = title, duration = 120, timezone = ''UTC'', patterns = [],
      automation = Some threeDaysBefore\<rparr>"

definition pairUpcoming :: "upcomingEvent list" where
  "pairUpcoming =
     [\<lparr>u_id = Some ''grpevt_1'', u_startsAtUtc = Some 50000000, u_eventStartsAt = None,
       u_title = Some ''Quiz night''\<rparr>,
      \<lparr>u_id = Some ''grpevt_2'', u_startsAtUtc = Some 50000000, u_eventStartsAt = None,
       u_title = Some ''Dance party''\<rparr>]"

definition pairEngine :: engine where
  "pairEngine =
     emptyEngine
       \<lparr>pendingEvents :=
          [(examplePending ''slot_1'' ''grp'' ''quiz'' 40000000 30000000 ''published'')
             \<lparr>eventId := Some ''grpevt_old''\<rparr>,
           examplePending ''slot_2'' ''grp'' ''quiz'' 50000000 30000000 ''published''],
        profilesRef := Some [''grp'' \<mapsto> [''quiz'' \<mapsto> twinProfile ''Quiz night'']]\<rparr>"

text \<open>The missed record again, with its group locked by the rate limiter until 5000000,
  and a published record of the same profile.\<close>

definition lockedEngine :: engine where
  "lockedEngine =
     missedEngine
       \<lparr>groups := [''grp'' \<mapsto> \<lparr>history = [], backoffIndex = 1, lockUntil = Some 5000000\<rparr>]\<rparr>"

definition publishedEngine :: engine where
  "publishedEngine =
     missedEngine
       \<lparr>pendingEvents :=
          [(examplePending ''pending_grp_monthly_2000000'' ''grp'' ''monthly'' 2000000 100000
              ''published'')\<lparr>eventId := Some ''grpevt_7''\<rparr>]\<rparr>"

definition queuedEngine :: engine where
  "queuedEngine =
     missedEngine
       \<lparr>pendingEvents :=
          [examplePending ''pending_grp_monthly_2000000'' ''grp'' ''monthly'' 2000000 100000
             ''queued'']\<rparr>"

text \<open>An anchored profile with two deleted records: one at the anchor, one a week later.\<close>

definition restorableEngine :: engine where
  "restorableEngine =
     anchoredEngine
       \<lparr>deletedEvents :=
          [examplePending ''pending_grp_weekly_1000'' ''grp'' ''weekly'' 1000 400 ''deleted'',
           examplePending ''pending_grp_weekly_605800000'' ''grp'' ''weekly'' 605800000 346600000
             ''deleted''],
        profilesRef := Some [''grp'' \<mapsto> [''weekly'' \<mapsto> weeklyProfile]]\<rparr>"

text \<open>The five records again, with their profile known.\<close>

definition readyEngine :: engine where
  "readyEngine =
     ladderEngine\<lparr>profilesRef := Some [''grpA'' \<mapsto> [''weekly'' \<mapsto> weeklyProfile]]\<rparr>"

section \<open>Properties\<close>

subsection \<open>Anchor seeding\<close>

text \<open>
  Claim C7. \<^verbatim>\<open>recordManualEvent(target, key, t)\<close> never increases the anchor: it returns
  true, and then the anchor is \<open>t\<close>, exactly when the group is known and either no anchor
  exists or \<open>t\<close> strictly precedes it; in every other case it returns false and the whole
  engine state is unchanged. An anchor that existed before still exists afterwards and is
  not later than before.
\<close>

theorem recordManualEvent_anchor:
  "(case recordManualEvent g k (Some t) s of (b, s') \<Rightarrow>
      (b \<longleftrightarrow> isKnownGroupId g s \<and> (anchorOf s g k = None \<or> t < the (anchorOf s g k))) \<and>
      (b \<longrightarrow> anchorOf s' g k = Some t) \<and>
      (\<not> b \<longrightarrow> s' = s) \<and>
      (\<forall>a. anchorOf s g k = Some a \<longrightarrow> (\<exists>a'. anchorOf s' g k = Some a' \<and> a' \<le> a)))"
  by (auto simp: recordManualEvent_def anchorOf_def getOrCreateProfileState_def
      getActivationStartMs_def putProfileState_def saveAutomationState_def emit_def
      freshProfileState_def Let_def split: option.splits)

theorem recordManualEvent_anchor_witness:
  "isKnownGroupId ''grp'' anchoredEngine \<and>
   anchorOf anchoredEngine ''grp'' ''weekly'' = Some 1000 \<and>
   (case recordManualEvent ''grp'' ''weekly'' (Some 500) anchoredEngine of
      (b, s') \<Rightarrow> b \<and> anchorOf s' ''grp'' ''weekly'' = Some 500) \<and>
   (case recordManualEvent ''grp'' ''weekly'' (Some 1000) anchoredEngine of
      (b, s') \<Rightarrow> \<not> b \<and> s' = anchoredEngine)"
  using recordManualEvent_anchor [where g = "''grp''" and k = "''weekly''" and t = 500 and s = anchoredEngine]
        recordManualEvent_anchor [where g = "''grp''" and k = "''weekly''" and t = 1000 and s = anchoredEngine]
  by (simp add: anchoredEngine_def emptyEngine_def isKnownGroupId_def anchorOf_def
      getProfileStateKey_def getActivationStartMs_def split: prod.splits)

subsection \<open>Rate limiting\<close>

lemma oldestOf_Min: "h \<noteq> [] \<Longrightarrow> oldestOf h = Min (set h)"
proof (cases h)
  case Nil
  then show "h \<noteq> [] \<Longrightarrow> oldestOf h = Min (set h)" by simp
next
  case (Cons a list)
  then show "h \<noteq> [] \<Longrightarrow> oldestOf h = Min (set h)"
    using Min.set_eq_fold [of a list] by (simp add: oldestOf_def)
qed

lemma rateOf_setRate: "rateOf (setRate g r s) g = r"
  by (simp add: rateOf_def setRate_def)

lemma groups_unchanged:
  "groups (modifyPending i f s) = groups s"
  "groups (emit e s) = groups s"
  "groups (savePendingEvents s) = groups s"
  "groups (saveAutomationState s) = groups s"
  "groups (putProfileState key ps s) = groups s"
  "groups (snd (getOrCreateProfileState key s)) = groups s"
  "groups (scheduleRetry pid s) = groups s"
  "groups (s\<lparr>suspended := x\<rparr>) = groups s"
  by (simp_all add: modifyPending_def emit_def savePendingEvents_def saveAutomationState_def
      putProfileState_def getOrCreateProfileState_def scheduleRetry_def split: option.splits)

lemma processing_unchanged:
  "processing (modifyPending i f s) = processing s"
  "processing (savePendingEvents s) = processing s"
  "processing (handleRateLimitError now g s) = processing s"
  by (simp_all add: modifyPending_def emit_def savePendingEvents_def handleRateLimitError_def
      setRate_def)

lemma queueEventPost_while_processing:
  "processing s \<Longrightarrow> groups (queueEventPost now pid g p s) = groups s"
  by (simp add: queueEventPost_def processQueue_def)

lemma rateOf_cong: "groups s = groups s' \<Longrightarrow> rateOf s g = rateOf s' g"
  by (simp add: rateOf_def)

lemma done_rate_limited:
  assumes "processing s" and "isRateLimit res"
  shows "rateOf (executeAutomatedPostInternal_done now i res s) (groupId (pendingEvents s ! i)) =
         handleRateLimitError_rate now (rateOf s (groupId (pendingEvents s ! i)))"
proof -
  obtain code st msg where res: "res = PublishFailed code st msg"
    using assms(2) by (cases res) (simp_all add: isRateLimit_def)
  let ?g = "groupId (pendingEvents s ! i)"
  let ?s1 = "handleRateLimitError now ?g s"
  let ?s2 = "savePendingEvents (modifyPending i (\<lambda>e. e\<lparr>status := ''queued'', queuedAt := Some now\<rparr>) ?s1)"
  have p: "processing ?s2" using assms(1) by (simp add: processing_unchanged)
  have "groups (executeAutomatedPostInternal_done now i res s) =
        groups (queueEventPost now (id (pendingEvents s ! i)) ?g (eventStartsAt (pendingEvents s ! i)) ?s2)"
    using assms(2) unfolding res by (simp add: executeAutomatedPostInternal_done_def Let_def)
  also have "\<dots> = groups ?s2" using p by (rule queueEventPost_while_processing)
  also have "\<dots> = groups ?s1" by (simp add: groups_unchanged)
  finally have "rateOf (executeAutomatedPostInternal_done now i res s) ?g = rateOf ?s1 ?g"
    by (rule rateOf_cong)
  then show ?thesis by (simp add: handleRateLimitError_def rateOf_setRate)
qed

lemma done_success:
  "rateOf (executeAutomatedPostInternal_done now i (PublishOk rid) s) (groupId (pendingEvents s ! i)) =
   recordEventCreation_rate now (rateOf s (groupId (pendingEvents s ! i)))"
proof -
  let ?g = "groupId (pendingEvents s ! i)"
  have "groups (executeAutomatedPostInternal_done now i (PublishOk rid) s) =
        groups (recordEventCreation now ?g s)"
    by (simp add: executeAutomatedPostInternal_done_def Let_def groups_unchanged
        getOrCreateProfileState_def putProfileState_def split: prod.splits option.splits)
  then have "rateOf (executeAutomatedPostInternal_done now i (PublishOk rid) s) ?g =
             rateOf (recordEventCreation now ?g s) ?g"
    by (rule rateOf_cong)
  then show ?thesis by (simp add: recordEventCreation_def rateOf_setRate)
qed

lemma handleRateLimitError_rate_window:
  "10 \<le> length (filter (\<lambda>ts. ts \<ge> now - 60 * 60 * 1000) (history r)) \<Longrightarrow>
   lockUntil (handleRateLimitError_rate now r) =
     Some (Min (set (filter (\<lambda>ts. ts \<ge> now - 60 * 60 * 1000) (history r))) + 60 * 60 * 1000)"
proof -
  assume a: "10 \<le> length (filter (\<lambda>ts. ts \<ge> now - 60 * 60 * 1000) (history r))"
  then have ne: "filter (\<lambda>ts. ts \<ge> now - 60 * 60 * 1000) (history r) \<noteq> []" by auto
  show ?thesis using a oldestOf_Min [OF ne]
    by (simp add: handleRateLimitError_rate_def pruneRateLimitHistory_def Let_def
        EVENT_HOURLY_LIMIT_def EVENT_HOURLY_WINDOW_MS_def)
qed

lemma handleRateLimitError_rate_backoff:
  "length (filter (\<lambda>ts. ts \<ge> now - 60 * 60 * 1000) (history r)) < 10 \<Longrightarrow> backoffIndex r \<le> 5 \<Longrightarrow>
   lockUntil (handleRateLimitError_rate now r) =
     Some (now + [2, 4, 8, 16, 32, 60] ! backoffIndex r * 60 * 1000) \<and>
   backoffIndex (handleRateLimitError_rate now r) = min (backoffIndex r + 1) 5"
  by (simp add: handleRateLimitError_rate_def pruneRateLimitHistory_def Let_def
      EVENT_HOURLY_LIMIT_def EVENT_HOURLY_WINDOW_MS_def BACKOFF_SEQUENCE_def)

text \<open>
  Claim C5. When the publish worker, called by the queue processor, gets a rate-limit
  failure for a record of group \<open>g\<close>: if the history of \<open>g\<close> inside the last hour holds at
  least 10 timestamps, \<open>lockUntil\<close> becomes the oldest of them plus one hour; otherwise,
  with the backoff index within 0..5, \<open>lockUntil\<close> becomes now plus 2, 4, 8, 16, 32 or 60
  minutes by that index and the index advances by one, capped at 5. A successful publish
  resets the index to 0, and so does \<^verbatim>\<open>isGroupRateLimited\<close> when it finds a lock that
  has expired, which it also clears.
\<close>

theorem rate_limit_backoff:
  "(processing s \<and> isRateLimit res \<longrightarrow>
      (let g = groupId (pendingEvents s ! i);
           r = rateOf s g;
           window = filter (\<lambda>ts. ts \<ge> now - 60 * 60 * 1000) (history r);
           r' = rateOf (executeAutomatedPostInternal_done now i res s) g
       in (length window \<ge> 10 \<longrightarrow> lockUntil r' = Some (Min (set window) + 60 * 60 * 1000)) \<and>
          (length window < 10 \<and> backoffIndex r \<le> 5 \<longrightarrow>
             lockUntil r' = Some (now + [2, 4, 8, 16, 32, 60] ! backoffIndex r * 60 * 1000) \<and>
             backoffIndex r' = min (backoffIndex r + 1) 5 \<and> backoffIndex r' \<le> 5))) \<and>
   backoffIndex (rateOf (executeAutomatedPostInternal_done now i (PublishOk rid) s)
                   (groupId (pendingEvents s ! i))) = 0 \<and>
   (lockUntil r0 = Some l \<and> l \<noteq> 0 \<and> l \<le> now \<longrightarrow>
      backoffIndex (snd (isGroupRateLimited_rate now r0)) = 0 \<and>
      lockUntil (snd (isGroupRateLimited_rate now r0)) = None)"
proof (intro conjI impI)
  assume "processing s \<and> isRateLimit res"
  then show "let g = groupId (pendingEvents s ! i);
           r = rateOf s g;
           window = filter (\<lambda>ts. ts \<ge> now - 60 * 60 * 1000) (history r);
           r' = rateOf (executeAutomatedPostInternal_done now i res s) g
       in (length window \<ge> 10 \<longrightarrow> lockUntil r' = Some (Min (set window) + 60 * 60 * 1000)) \<and>
          (length window < 10 \<and> backoffIndex r \<le> 5 \<longrightarrow>
             lockUntil r' = Some (now + [2, 4, 8, 16, 32, 60] ! backoffIndex r * 60 * 1000) \<and>
             backoffIndex r' = min (backoffIndex r + 1) 5 \<and> backoffIndex r' \<le> 5)"
    unfolding Let_def
    using handleRateLimitError_rate_window handleRateLimitError_rate_backoff
    by (simp add: done_rate_limited)
next
  show "backoffIndex (rateOf (executeAutomatedPostInternal_done now i (PublishOk rid) s)
                   (groupId (pendingEvents s ! i))) = 0"
    by (simp add: done_success recordEventCreation_rate_def pruneRateLimitHistory_def Let_def)
next
  assume "lockUntil r0 = Some l \<and> l \<noteq> 0 \<and> l \<le> now"
  then show "backoffIndex (snd (isGroupRateLimited_rate now r0)) = 0"
    by (simp add: isGroupRateLimited_rate_def lockSet_def pruneRateLimitHistory_def Let_def)
next
  assume "lockUntil r0 = Some l \<and> l \<noteq> 0 \<and> l \<le> now"
  then show "lockUntil (snd (isGroupRateLimited_rate now r0)) = None"
    by (simp add: isGroupRateLimited_rate_def lockSet_def pruneRateLimitHistory_def Let_def)
qed

theorem rate_limit_backoff_witness:
  "processing busyEngine \<and> isRateLimit (PublishFailed None (Some 429) None) \<and>
   lockUntil (rateOf (executeAutomatedPostInternal_done 10000000 0
                (PublishFailed None (Some 429) None) busyEngine) ''grpA'') = Some 10100000 \<and>
   lockUntil (rateOf (executeAutomatedPostInternal_done 10000000 1
                (PublishFailed None (Some 429) None) busyEngine) ''grpB'') = Some 10480000 \<and>
   backoffIndex (rateOf (executeAutomatedPostInternal_done 10000000 1
                (PublishFailed None (Some 429) None) busyEngine) ''grpB'') = 3 \<and>
   backoffIndex (snd (isGroupRateLimited_rate 10000000
                   \<lparr>history = [], backoffIndex = 4, lockUntil = Some 9000000\<rparr>)) = 0"
  using rate_limit_backoff [where s = busyEngine and i = 0 and now = 10000000
          and res = "PublishFailed None (Some 429) None"
          and ?r0.0 = "\<lparr>history = [], backoffIndex = 4, lockUntil = Some 9000000\<rparr>"
          and l = 9000000]
        rate_limit_backoff [where s = busyEngine and i = 1 and now = 10000000
          and res = "PublishFailed None (Some 429) None"]
proof -
  have p: "processing busyEngine" by (simp add: busyEngine_def emptyEngine_def)
  have rl: "isRateLimit (PublishFailed None (Some 429) None)" by (simp add: isRateLimit_def)
  have g0: "groupId (pendingEvents busyEngine ! 0) = ''grpA''"
    by (simp add: busyEngine_def emptyEngine_def examplePending_def)
  have g1: "groupId (pendingEvents busyEngine ! 1) = ''grpB''"
    by (simp add: busyEngine_def emptyEngine_def examplePending_def)
  have rA: "rateOf busyEngine ''grpA'' =
              \<lparr>history = [1000, 7000000, 6500000, 7100000, 7200000, 7300000,
                          7400000, 7500000, 7600000, 7700000, 7800000],
               backoffIndex = 0, lockUntil = None\<rparr>"
    by (simp add: busyEngine_def emptyEngine_def rateOf_def)
  have rB: "rateOf busyEngine ''grpB'' = \<lparr>history = [1000, 7000000], backoffIndex = 2, lockUntil = None\<rparr>"
    by (simp add: busyEngine_def emptyEngine_def rateOf_def)
  have wA: "filter (\<lambda>ts. ts \<ge> 10000000 - 60 * 60 * 1000)
              [1000, 7000000, 6500000, 7100000, 7200000, 7300000,
               7400000, 7500000, 7600000, 7700000, 7800000 :: int] =
            [7000000, 6500000, 7100000, 7200000, 7300000,
             7400000, 7500000, 7600000, 7700000, 7800000]"
    by simp
  have wB: "filter (\<lambda>ts. ts \<ge> 10000000 - 60 * 60 * 1000) [1000, 7000000 :: int] = [7000000]"
    by simp
  note t0 = rate_limit_backoff [where s = busyEngine and i = 0 and now = 10000000
          and res = "PublishFailed None (Some 429) None"
          and ?r0.0 = "\<lparr>history = [], backoffIndex = 4, lockUntil = Some 9000000\<rparr>"
          and l = 9000000, unfolded Let_def g0 rA, simplified p rl wA]
  note t1 = rate_limit_backoff [where s = busyEngine and i = 1 and now = 10000000
          and res = "PublishFailed None (Some 429) None", unfolded Let_def g1 rB, simplified p rl wB]
  show ?thesis using t0 t1 p rl by simp
qed

subsection \<open>Scheduler\<close>

lemma begin_queue: "queue (executeAutomatedPostInternal_begin i s) = queue s"
  by (simp add: executeAutomatedPostInternal_begin_def Let_def savePendingEvents_def emit_def
      modifyPending_def scheduleRetry_def split: option.split)

lemma exit_queue: "queue (processQueue_exit s) = queue s"
  by (simp add: processQueue_exit_def Let_def)

lemma limited_pending:
  "pendingEvents (snd (isGroupRateLimited now g s)) = pendingEvents s"
  by (simp add: isGroupRateLimited_def setRate_def split_def Let_def)

lemma processQueue_loop_hands_over:
  "findPending pid s = Some j \<Longrightarrow>
   status (pendingEvents s ! j) = ''scheduled'' \<or> status (pendingEvents s ! j) = ''missed'' \<or>
     status (pendingEvents s ! j) = ''queued'' \<Longrightarrow>
   list_ex (\<lambda>item. q_pendingEventId item = pid) q \<Longrightarrow>
   list_ex (\<lambda>item. q_pendingEventId item = pid) (queue (processQueue_loop now q s)) \<or>
   (\<exists>t. processQueue_loop now q s = executeAutomatedPostInternal_begin j t)"
proof (induction q arbitrary: s)
  case Nil
  then show ?case by simp
next
  case (Cons item rest)
  obtain limited s1 where l: "isGroupRateLimited now (q_groupId item) s = (limited, s1)"
    by (cases "isGroupRateLimited now (q_groupId item) s")
  have p1: "pendingEvents s1 = pendingEvents s"
    using limited_pending [of now "q_groupId item" s] l by simp
  have f1: "findPending pid s1 = Some j" using Cons.prems(1) by (simp add: findPending_def p1)
  have st1: "status (pendingEvents s1 ! j) = ''scheduled'' \<or> status (pendingEvents s1 ! j) = ''missed'' \<or>
     status (pendingEvents s1 ! j) = ''queued''" using Cons.prems(2) by (simp add: p1)
  show ?case
  proof (cases limited)
    case True
    obtain w s2 where w: "getRateLimitWaitMs now (q_groupId item) s1 = (w, s2)"
      by (cases "getRateLimitWaitMs now (q_groupId item) s1")
    have "processQueue_loop now (item # rest) s =
            processQueue_exit (s2\<lparr>queue := item # rest, processTimeout := Some (w + 100)\<rparr>)"
      using l True w by simp
    then show ?thesis using Cons.prems(3) by (simp add: exit_queue)
  next
    case False
    note nl = False
    show ?thesis
    proof (cases "q_pendingEventId item = pid")
      case True
      have "processQueue_loop now (item # rest) s =
              executeAutomatedPostInternal_begin j
                ((if status (pendingEvents s1 ! j) = ''queued''
                  then modifyPending j (\<lambda>e. e\<lparr>status := ''scheduled''\<rparr>) s1 else s1)\<lparr>queue := rest\<rparr>)"
        using l nl True f1 st1 by (auto simp: Let_def)
      then show ?thesis by blast
    next
      case False
      then have r: "list_ex (\<lambda>item. q_pendingEventId item = pid) rest" using Cons.prems(3) by simp
      note ih = Cons.IH [OF f1 st1 r]
      show ?thesis
      proof (cases "findPending (q_pendingEventId item) s1")
        case None
        then have "processQueue_loop now (item # rest) s = processQueue_loop now rest s1"
          using l nl by simp
        then show ?thesis using ih by simp
      next
        case (Some i)
        show ?thesis
        proof (cases "status (pendingEvents s1 ! i) \<noteq> ''scheduled'' \<and>
                      status (pendingEvents s1 ! i) \<noteq> ''missed'' \<and>
                      status (pendingEvents s1 ! i) \<noteq> ''queued''")
          case True
          then have "processQueue_loop now (item # rest) s = processQueue_loop now rest s1"
            using l nl Some by (simp add: Let_def)
          then show ?thesis using ih by simp
        next
          case False
          then have "processQueue_loop now (item # rest) s =
              executeAutomatedPostInternal_begin i
                ((if status (pendingEvents s1 ! i) = ''queued''
                  then modifyPending i (\<lambda>e. e\<lparr>status := ''scheduled''\<rparr>) s1 else s1)\<lparr>queue := rest\<rparr>)"
            using l nl Some by (auto simp: Let_def)
          then have "queue (processQueue_loop now (item # rest) s) = rest"
            by (simp add: begin_queue modifyPending_def)
          then show ?thesis using r by simp
        qed
      qed
    qed
  qed
qed

lemma sortQueue_set: "set (sortQueue zs) = set zs"
proof -
  have "set (insertByPriority x ys) = insert x (set ys)" for x ys
    by (induction ys) auto
  then show ?thesis unfolding sortQueue_def by (induction zs) auto
qed

lemma queueEventPost_hands_over:
  assumes "findPending pid s = Some j"
    and "status (pendingEvents s ! j) = ''scheduled'' \<or> status (pendingEvents s ! j) = ''missed'' \<or>
         status (pendingEvents s ! j) = ''queued''"
  shows "list_ex (\<lambda>item. q_pendingEventId item = pid) (queue (queueEventPost now pid g p s)) \<or>
         (\<exists>t. queueEventPost now pid g p s = executeAutomatedPostInternal_begin j t)"
proof (cases "list_ex (\<lambda>item. q_pendingEventId item = pid) (queue s)")
  case True
  then show ?thesis by (simp add: queueEventPost_def)
next
  case False
  define q where "q = sortQueue (queue s @ [\<lparr>q_pendingEventId = pid, q_groupId = g, q_priority = p\<rparr>])"
  have inq: "list_ex (\<lambda>item. q_pendingEventId item = pid) q"
    by (auto simp: q_def list_ex_iff sortQueue_set)
  have qne: "q \<noteq> []" using inq by auto
  have e: "queueEventPost now pid g p s = processQueue now (s\<lparr>queue := q\<rparr>)"
    using False by (simp add: queueEventPost_def q_def)
  show ?thesis
  proof (cases "processing s")
    case True
    then show ?thesis using e inq by (simp add: processQueue_def)
  next
    case False
    then have "queueEventPost now pid g p s =
                 processQueue_loop now q (s\<lparr>queue := q, processing := True\<rparr>)"
      using e qne by (simp add: processQueue_def)
    moreover have "findPending pid (s\<lparr>queue := q, processing := True\<rparr>) = Some j"
      using assms(1) by (simp add: findPending_def)
    moreover have "status (pendingEvents (s\<lparr>queue := q, processing := True\<rparr>) ! j) = ''scheduled'' \<or>
        status (pendingEvents (s\<lparr>queue := q, processing := True\<rparr>) ! j) = ''missed'' \<or>
        status (pendingEvents (s\<lparr>queue := q, processing := True\<rparr>) ! j) = ''queued''"
      using assms(2) by simp
    ultimately show ?thesis
      using processQueue_loop_hands_over [of pid "s\<lparr>queue := q, processing := True\<rparr>" j q now]
        inq by simp
  qed
qed

lemma queueEventPost_busy:
  assumes "processing s"
  shows "list_ex (\<lambda>item. q_pendingEventId item = pid) (queue (queueEventPost now pid g p s)) \<and>
         queueEventPost now pid g p s = s\<lparr>queue := queue (queueEventPost now pid g p s)\<rparr>"
proof (cases "list_ex (\<lambda>item. q_pendingEventId item = pid) (queue s)")
  case True
  then show ?thesis by (simp add: queueEventPost_def)
next
  case False
  then show ?thesis using assms
    by (auto simp: queueEventPost_def processQueue_def list_ex_iff sortQueue_set)
qed


lemma limited_fields:
  "fst (isGroupRateLimited now g (s\<lparr>queue := q, processing := b\<rparr>)) = fst (isGroupRateLimited now g s)"
  "profilesRef (snd (isGroupRateLimited now g s)) = profilesRef s"
  "effects (snd (isGroupRateLimited now g s)) = effects s"
  "processing (snd (isGroupRateLimited now g s)) = processing s"
  by (simp_all add: isGroupRateLimited_def setRate_def split_def Let_def rateOf_def)

lemma begin_publishes:
  assumes "findPending (id (pendingEvents s ! j)) s = Some j"
    and "resolveEventDetails (id (pendingEvents s ! j)) s = Some d"
    and "eventStartsAt (pendingEvents s ! j) = Some st"
  shows "executeAutomatedPostInternal_begin j s =
           s\<lparr>effects := effects s @
                 [CreateEvent (groupId (pendingEvents s ! j)) (d_title d) st
                    (st + num_or (d_duration d) 120 * 60 * 1000)],
              suspended := AwaitPublish (id (pendingEvents s ! j))\<rparr>"
  using assms by (simp add: executeAutomatedPostInternal_begin_def Let_def emit_def)

lemma fire_idle:
  assumes np: "\<not> processing s" and qe: "queue s = []"
    and f: "findPending (id (pendingEvents s ! j)) s = Some j"
    and st: "status (pendingEvents s ! j) = ''scheduled'' \<or> status (pendingEvents s ! j) = ''missed''"
    and nl: "\<not> fst (isGroupRateLimited now (groupId (pendingEvents s ! j)) s)"
    and d: "resolveEventDetails (id (pendingEvents s ! j)) s = Some d"
    and es: "eventStartsAt (pendingEvents s ! j) = Some start"
  shows "effects (timerCallback (PublishTimer t) now j s) =
           effects s @ [CreateEvent (groupId (pendingEvents s ! j)) (d_title d) start
                          (start + num_or (d_duration d) 120 * 60 * 1000)] \<and>
         suspended (timerCallback (PublishTimer t) now j s) = AwaitPublish (id (pendingEvents s ! j)) \<and>
         queue (timerCallback (PublishTimer t) now j s) = [] \<and>
         processing (timerCallback (PublishTimer t) now j s) \<and>
         pendingEvents (timerCallback (PublishTimer t) now j s) = pendingEvents s"
proof -
  define e where "e = pendingEvents s ! j"
  define item where "item = \<lparr>q_pendingEventId = id e, q_groupId = groupId e, q_priority = eventStartsAt e\<rparr>"
  define s0 where "s0 = s\<lparr>queue := [item], processing := True\<rparr>"
  obtain lim s1 where l: "isGroupRateLimited now (groupId e) s0 = (lim, s1)"
    by (cases "isGroupRateLimited now (groupId e) s0")
  have lim: "\<not> lim"
    using nl l limited_fields(1) [where now = now and g = "groupId e" and s = s and q = "[item]" and b = True]
    by (simp add: s0_def e_def)
  have p1: "pendingEvents s1 = pendingEvents s"
    using limited_pending [of now "groupId e" s0] l by (simp add: s0_def)
  have pr1: "profilesRef s1 = profilesRef s" "effects s1 = effects s" "processing s1"
    using limited_fields(2-4) [where now = now and g = "groupId e" and s = s0] l by (simp_all add: s0_def)
  have f1: "findPending (id e) s1 = Some j" using f by (simp add: findPending_def p1 e_def)
  have st1: "status (pendingEvents s1 ! j) = ''scheduled'' \<or> status (pendingEvents s1 ! j) = ''missed''"
    using st by (simp add: p1)
  define s2 where "s2 = s1\<lparr>queue := []\<rparr>"
  have qi: "q_pendingEventId item = id e" "q_groupId item = groupId e" by (simp_all add: item_def)
  have fired: "timerCallback (PublishTimer t) now j s = executeAutomatedPostInternal_begin j s2"
    using np qe l lim f1 st1
    by (auto simp: executeAutomatedPost_def queueEventPost_def processQueue_def sortQueue_def
        Let_def e_def [symmetric] item_def [symmetric] s0_def [symmetric] s2_def qi)
  have p2: "pendingEvents s2 = pendingEvents s" by (simp add: s2_def p1)
  have f2: "findPending (id (pendingEvents s2 ! j)) s2 = Some j"
    using f by (simp add: findPending_def p2)
  have d2: "resolveEventDetails (id (pendingEvents s2 ! j)) s2 = Some d"
  proof -
    have "detailsFor s2 x = detailsFor s x" for x
      by (simp add: detailsFor_def lookupProfile_def s2_def pr1)
    then show ?thesis using d
      by (simp add: resolveEventDetails_def findPending_def p2 split: option.splits)
  qed
  have es2: "eventStartsAt (pendingEvents s2 ! j) = Some start" using es by (simp add: p2)
  show ?thesis
    unfolding fired begin_publishes [OF f2 d2 es2]
    by (simp add: p2 s2_def pr1 p1)
qed

text \<open>
  Claim C6. For a record with publish time \<open>publish\<close>, \<^verbatim>\<open>scheduleJob\<close> at time \<open>now\<close>
  acts on \<open>delay = publish - now\<close>: with \<open>delay \<le> 0\<close> the record is marked missed, the
  store is saved and \<^verbatim>\<open>onMissedEvent\<close> is called, and no timer is set; above 7 days a
  24-hour recheck timer is set, above 2 days an 8-hour one, above 1 day a 2-hour one;
  otherwise a publish timer of exactly \<open>delay\<close> is set. The callback of a recheck timer is
  \<^verbatim>\<open>scheduleJob\<close> itself. The callback of a publish timer enqueues the record: after it
  has run, a record that is found under its id and is scheduled, missed or queued stands in
  the queue, or the queue processor has taken it from there and started the publish worker
  on it. While the processor is at work the callback changes the queue alone; with an idle
  processor, an empty queue and a group that is not rate limited it ends with the publish
  request for the record under way.
\<close>

theorem scheduleJob_ladder:
  "(scheduledPublishTime (pendingEvents s ! i) = Some publish \<longrightarrow>
      scheduleJob now i s =
        (let e = pendingEvents s ! i; delay = publish - now in
         if delay \<le> 0 then
           s\<lparr>pendingEvents := (pendingEvents s)[i := e\<lparr>status := ''missed'', missedAt := Some now\<rparr>],
             effects := effects s @ [SavePending, OnMissed (id e)]\<rparr>
         else if delay > 7 * (24 * 60 * 60 * 1000) then
           s\<lparr>scheduledJobs := (scheduledJobs s)(id e \<mapsto> RecheckTimer (24 * 60 * 60 * 1000))\<rparr>
         else if delay > 2 * (24 * 60 * 60 * 1000) then
           s\<lparr>scheduledJobs := (scheduledJobs s)(id e \<mapsto> RecheckTimer (8 * 60 * 60 * 1000))\<rparr>
         else if delay > 24 * 60 * 60 * 1000 then
           s\<lparr>scheduledJobs := (scheduledJobs s)(id e \<mapsto> RecheckTimer (2 * 60 * 60 * 1000))\<rparr>
         else
           s\<lparr>scheduledJobs := (scheduledJobs s)(id e \<mapsto> PublishTimer (Some delay))\<rparr>)) \<and>
   timerCallback (RecheckTimer d) now' j s' = scheduleJob now' j s' \<and>
   timerCallback (PublishTimer d') now' j s' =
     queueEventPost now' (id (pendingEvents s' ! j)) (groupId (pendingEvents s' ! j))
       (eventStartsAt (pendingEvents s' ! j)) s' \<and>
   (findPending (id (pendingEvents s' ! j)) s' = Some j \<and>
    (status (pendingEvents s' ! j) = ''scheduled'' \<or> status (pendingEvents s' ! j) = ''missed'' \<or>
     status (pendingEvents s' ! j) = ''queued'') \<longrightarrow>
      list_ex (\<lambda>item. q_pendingEventId item = id (pendingEvents s' ! j))
        (queue (timerCallback (PublishTimer d') now' j s')) \<or>
      (\<exists>t. timerCallback (PublishTimer d') now' j s' = executeAutomatedPostInternal_begin j t)) \<and>
   (processing s' \<longrightarrow>
      list_ex (\<lambda>item. q_pendingEventId item = id (pendingEvents s' ! j))
        (queue (timerCallback (PublishTimer d') now' j s')) \<and>
      timerCallback (PublishTimer d') now' j s' =
        s'\<lparr>queue := queue (timerCallback (PublishTimer d') now' j s')\<rparr>) \<and>
   (\<not> processing s' \<and> queue s' = [] \<and>
    findPending (id (pendingEvents s' ! j)) s' = Some j \<and>
    (status (pendingEvents s' ! j) = ''scheduled'' \<or> status (pendingEvents s' ! j) = ''missed'') \<and>
    \<not> fst (isGroupRateLimited now' (groupId (pendingEvents s' ! j)) s') \<and>
    resolveEventDetails (id (pendingEvents s' ! j)) s' = Some details \<and>
    eventStartsAt (pendingEvents s' ! j) = Some start \<longrightarrow>
      effects (timerCallback (PublishTimer d') now' j s') =
        effects s' @ [CreateEvent (groupId (pendingEvents s' ! j)) (d_title details) start
                        (start + num_or (d_duration details) 120 * 60 * 1000)] \<and>
      suspended (timerCallback (PublishTimer d') now' j s') = AwaitPublish (id (pendingEvents s' ! j)) \<and>
      queue (timerCallback (PublishTimer d') now' j s') = [] \<and>
      processing (timerCallback (PublishTimer d') now' j s') \<and>
      pendingEvents (timerCallback (PublishTimer d') now' j s') = pendingEvents s')"
proof -
  have ladder: "scheduledPublishTime (pendingEvents s ! i) = Some publish \<longrightarrow>
      scheduleJob now i s =
        (let e = pendingEvents s ! i; delay = publish - now in
         if delay \<le> 0 then
           s\<lparr>pendingEvents := (pendingEvents s)[i := e\<lparr>status := ''missed'', missedAt := Some now\<rparr>],
             effects := effects s @ [SavePending, OnMissed (id e)]\<rparr>
         else if delay > 7 * (24 * 60 * 60 * 1000) then
           s\<lparr>scheduledJobs := (scheduledJobs s)(id e \<mapsto> RecheckTimer (24 * 60 * 60 * 1000))\<rparr>
         else if delay > 2 * (24 * 60 * 60 * 1000) then
           s\<lparr>scheduledJobs := (scheduledJobs s)(id e \<mapsto> RecheckTimer (8 * 60 * 60 * 1000))\<rparr>
         else if delay > 24 * 60 * 60 * 1000 then
           s\<lparr>scheduledJobs := (scheduledJobs s)(id e \<mapsto> RecheckTimer (2 * 60 * 60 * 1000))\<rparr>
         else
           s\<lparr>scheduledJobs := (scheduledJobs s)(id e \<mapsto> PublishTimer (Some delay))\<rparr>)"
    by (simp add: scheduleJob_def Let_def getRecheckIntervalMs_def ONE_DAY_MS_def
        EIGHT_HOURS_MS_def TWO_HOURS_MS_def setJob_def emit_def savePendingEvents_def
        modifyPending_def)
  have recheck: "timerCallback (RecheckTimer d) now' j s' = scheduleJob now' j s'" by simp
  have fire: "timerCallback (PublishTimer d') now' j s' =
     queueEventPost now' (id (pendingEvents s' ! j)) (groupId (pendingEvents s' ! j))
       (eventStartsAt (pendingEvents s' ! j)) s'"
    by (simp add: executeAutomatedPost_def Let_def)
  have kept: "findPending (id (pendingEvents s' ! j)) s' = Some j \<and>
    (status (pendingEvents s' ! j) = ''scheduled'' \<or> status (pendingEvents s' ! j) = ''missed'' \<or>
     status (pendingEvents s' ! j) = ''queued'') \<longrightarrow>
      list_ex (\<lambda>item. q_pendingEventId item = id (pendingEvents s' ! j))
        (queue (timerCallback (PublishTimer d') now' j s')) \<or>
      (\<exists>t. timerCallback (PublishTimer d') now' j s' = executeAutomatedPostInternal_begin j t)"
    unfolding fire using queueEventPost_hands_over by blast
  have busy: "processing s' \<longrightarrow>
      list_ex (\<lambda>item. q_pendingEventId item = id (pendingEvents s' ! j))
        (queue (timerCallback (PublishTimer d') now' j s')) \<and>
      timerCallback (PublishTimer d') now' j s' =
        s'\<lparr>queue := queue (timerCallback (PublishTimer d') now' j s')\<rparr>"
    unfolding fire using queueEventPost_busy by blast
  have idle: "\<not> processing s' \<and> queue s' = [] \<and>
    findPending (id (pendingEvents s' ! j)) s' = Some j \<and>
    (status (pendingEvents s' ! j) = ''scheduled'' \<or> status (pendingEvents s' ! j) = ''missed'') \<and>
    \<not> fst (isGroupRateLimited now' (groupId (pendingEvents s' ! j)) s') \<and>
    resolveEventDetails (id (pendingEvents s' ! j)) s' = Some details \<and>
    eventStartsAt (pendingEvents s' ! j) = Some start \<longrightarrow>
      effects (timerCallback (PublishTimer d') now' j s') =
        effects s' @ [CreateEvent (groupId (pendingEvents s' ! j)) (d_title details) start
                        (start + num_or (d_duration details) 120 * 60 * 1000)] \<and>
      suspended (timerCallback (PublishTimer d') now' j s') = AwaitPublish (id (pendingEvents s' ! j)) \<and>
      queue (timerCallback (PublishTimer d') now' j s') = [] \<and>
      processing (timerCallback (PublishTimer d') now' j s') \<and>
      pendingEvents (timerCallback (PublishTimer d') now' j s') = pendingEvents s'"
    using fire_idle [of s' j now' details start d'] by blast
  from ladder recheck fire kept busy idle show ?thesis by (intro conjI)
qed

theorem scheduleJob_ladder_witness:
  "status (pendingEvents (scheduleJob 1000000 0 ladderEngine) ! 0) = ''missed'' \<and>
   scheduledJobs (scheduleJob 1000000 0 ladderEngine) = Map.empty \<and>
   effects (scheduleJob 1000000 0 ladderEngine) =
     [SavePending, OnMissed ''pending_grpA_weekly_5000000000''] \<and>
   scheduledJobs (scheduleJob 1000000 1 ladderEngine) ''pending_grpA_weekly_6000000000'' =
     Some (RecheckTimer 86400000) \<and>
   scheduledJobs (scheduleJob 1000000 2 ladderEngine) ''pending_grpA_weekly_7000000000'' =
     Some (RecheckTimer 28800000) \<and>
   scheduledJobs (scheduleJob 1000000 3 ladderEngine) ''pending_grpA_weekly_8000000000'' =
     Some (RecheckTimer 7200000) \<and>
   scheduledJobs (scheduleJob 1000000 4 ladderEngine) ''pending_grpA_weekly_9000000000'' =
     Some (PublishTimer (Some 86400000)) \<and>
   scheduledJobs (scheduleJob 1000000 4 readyEngine) ''pending_grpA_weekly_9000000000'' =
     Some (PublishTimer (Some 86400000)) \<and>
   effects (timerCallback (PublishTimer (Some 86400000)) 87400000 4
              (scheduleJob 1000000 4 readyEngine)) =
     [CreateEvent ''grpA'' ''Weekly session'' 9000000000 9007200000] \<and>
   suspended (timerCallback (PublishTimer (Some 86400000)) 87400000 4
                (scheduleJob 1000000 4 readyEngine)) =
     AwaitPublish ''pending_grpA_weekly_9000000000'' \<and>
   processing busyEngine \<and>
   map q_pendingEventId
     (queue (timerCallback (PublishTimer (Some 86400000)) 8000000 0 busyEngine)) =
     [''pending_grpA_weekly_20000000''] \<and>
   effects (timerCallback (PublishTimer (Some 86400000)) 8000000 0 busyEngine) = []"
proof -
  have e: "pendingEvents ladderEngine =
          [examplePending ''pending_grpA_weekly_5000000000'' ''grpA'' ''weekly'' 5000000000 900000 ''scheduled'',
           examplePending ''pending_grpA_weekly_6000000000'' ''grpA'' ''weekly'' 6000000000 701000000 ''scheduled'',
           examplePending ''pending_grpA_weekly_7000000000'' ''grpA'' ''weekly'' 7000000000 201000000 ''scheduled'',
           examplePending ''pending_grpA_weekly_8000000000'' ''grpA'' ''weekly'' 8000000000 101000000 ''scheduled'',
           examplePending ''pending_grpA_weekly_9000000000'' ''grpA'' ''weekly'' 9000000000 87400000 ''scheduled'']"
    "scheduledJobs ladderEngine = Map.empty" "effects ladderEngine = []"
    by (simp_all add: ladderEngine_def emptyEngine_def)
  note t = scheduleJob_ladder [where s = ladderEngine and now = 1000000, THEN conjunct1, rule_format]
  have "scheduleJob 1000000 0 ladderEngine = ladderEngine\<lparr>pendingEvents := (pendingEvents ladderEngine)[0 := (pendingEvents ladderEngine ! 0)\<lparr>status := ''missed'', missedAt := Some 1000000\<rparr>],
             effects := effects ladderEngine @ [SavePending, OnMissed (id (pendingEvents ladderEngine ! 0))]\<rparr>"
    using t [where i = 0 and publish = 900000] by (simp add: e examplePending_def)
  moreover have "scheduleJob 1000000 1 ladderEngine = ladderEngine\<lparr>scheduledJobs := (scheduledJobs ladderEngine)(id (pendingEvents ladderEngine ! 1) \<mapsto> RecheckTimer 86400000)\<rparr>"
    using t [where i = 1 and publish = 701000000] by (simp add: e examplePending_def)
  moreover have "scheduleJob 1000000 2 ladderEngine = ladderEngine\<lparr>scheduledJobs := (scheduledJobs ladderEngine)(id (pendingEvents ladderEngine ! 2) \<mapsto> RecheckTimer 28800000)\<rparr>"
    using t [where i = 2 and publish = 201000000] by (simp add: e examplePending_def)
  moreover have "scheduleJob 1000000 3 ladderEngine = ladderEngine\<lparr>scheduledJobs := (scheduledJobs ladderEngine)(id (pendingEvents ladderEngine ! 3) \<mapsto> RecheckTimer 7200000)\<rparr>"
    using t [where i = 3 and publish = 101000000] by (simp add: e examplePending_def)
  moreover have "scheduleJob 1000000 4 ladderEngine = ladderEngine\<lparr>scheduledJobs := (scheduledJobs ladderEngine)(id (pendingEvents ladderEngine ! 4) \<mapsto> PublishTimer (Some 86400000))\<rparr>"
    using t [where i = 4 and publish = 87400000] by (simp add: e examplePending_def)
  ultimately have ladder:
    "status (pendingEvents (scheduleJob 1000000 0 ladderEngine) ! 0) = ''missed'' \<and>
     scheduledJobs (scheduleJob 1000000 0 ladderEngine) = Map.empty \<and>
     effects (scheduleJob 1000000 0 ladderEngine) =
       [SavePending, OnMissed ''pending_grpA_weekly_5000000000''] \<and>
     scheduledJobs (scheduleJob 1000000 1 ladderEngine) ''pending_grpA_weekly_6000000000'' =
       Some (RecheckTimer 86400000) \<and>
     scheduledJobs (scheduleJob 1000000 2 ladderEngine) ''pending_grpA_weekly_7000000000'' =
       Some (RecheckTimer 28800000) \<and>
     scheduledJobs (scheduleJob 1000000 3 ladderEngine) ''pending_grpA_weekly_8000000000'' =
       Some (RecheckTimer 7200000) \<and>
     scheduledJobs (scheduleJob 1000000 4 ladderEngine) ''pending_grpA_weekly_9000000000'' =
       Some (PublishTimer (Some 86400000))"
    by (simp add: e examplePending_def)
  define rec4 where "rec4 = examplePending ''pending_grpA_weekly_9000000000'' ''grpA'' ''weekly''
                              9000000000 87400000 ''scheduled''"
  define s4 where "s4 = readyEngine\<lparr>scheduledJobs :=
      [''pending_grpA_weekly_9000000000'' \<mapsto> PublishTimer (Some 86400000)]\<rparr>"
  have r4: "pendingEvents readyEngine ! 4 = rec4"
    by (simp add: readyEngine_def e rec4_def)
  have f4: "id rec4 = ''pending_grpA_weekly_9000000000''" "groupId rec4 = ''grpA''"
    "profileKey rec4 = ''weekly''" "status rec4 = ''scheduled''"
    "eventStartsAt rec4 = Some 9000000000" "scheduledPublishTime rec4 = Some 87400000"
    "manualOverrides rec4 = None"
    by (simp_all add: rec4_def examplePending_def)
  have pub4: "scheduledPublishTime (pendingEvents readyEngine ! 4) = Some 87400000"
    by (simp add: r4 f4)
  have sjr: "scheduledJobs readyEngine = Map.empty"
    by (simp add: readyEngine_def e)
  have sj: "scheduleJob 1000000 4 readyEngine = s4"
    using scheduleJob_ladder [where s = readyEngine and now = 1000000 and i = 4
        and publish = 87400000, THEN conjunct1, THEN mp, OF pub4]
    by (simp add: r4 f4 s4_def sjr)
  have pr: "pendingEvents readyEngine = pendingEvents ladderEngine"
    by (simp add: readyEngine_def)
  have p4: "pendingEvents s4 ! 4 = rec4"
    by (simp add: s4_def r4)
  have h1: "\<not> processing s4" "queue s4 = []" "effects s4 = []"
    by (simp_all add: s4_def readyEngine_def ladderEngine_def emptyEngine_def)
  have h2: "findPending (id (pendingEvents s4 ! 4)) s4 = Some 4"
    by (simp add: p4 f4 findPending_def s4_def pr e examplePending_def)
  have h3: "status (pendingEvents s4 ! 4) = ''scheduled'' \<or> status (pendingEvents s4 ! 4) = ''missed''"
    by (simp add: p4 f4)
  have h4: "\<not> fst (isGroupRateLimited 87400000 (groupId (pendingEvents s4 ! 4)) s4)"
    by (simp add: p4 f4 isGroupRateLimited_def isGroupRateLimited_rate_def rateOf_def s4_def
        readyEngine_def ladderEngine_def emptyEngine_def freshGroupRate_def lockSet_def
        pruneRateLimitHistory_def EVENT_HOURLY_LIMIT_def Let_def)
  define details where "details = the (resolveEventDetails (id (pendingEvents s4 ! 4)) s4)"
  have dd: "detailsFor s4 rec4 \<noteq> None" "d_title (the (detailsFor s4 rec4)) = ''Weekly session''"
    "d_duration (the (detailsFor s4 rec4)) = 120"
    by (simp_all add: detailsFor_def lookupProfile_def s4_def readyEngine_def f4 weeklyProfile_def
        num_or_def Let_def)
  have rd: "resolveEventDetails (id (pendingEvents s4 ! 4)) s4 = detailsFor s4 rec4"
    using h2 by (simp add: resolveEventDetails_def p4)
  have h5: "resolveEventDetails (id (pendingEvents s4 ! 4)) s4 = Some details"
    using dd(1) by (auto simp: details_def rd)
  have dt: "d_title details = ''Weekly session''" "d_duration details = 120"
    using dd by (simp_all add: details_def rd)
  have h6: "eventStartsAt (pendingEvents s4 ! 4) = Some 9000000000" by (simp add: p4 f4)
  note idle = scheduleJob_ladder [where s' = s4 and j = 4 and now' = 87400000
      and d' = "Some 86400000" and details = details and start = 9000000000,
      THEN conjunct2, THEN conjunct2, THEN conjunct2, THEN conjunct2, THEN conjunct2, THEN mp,
      OF conjI [OF h1(1) conjI [OF h1(2) conjI [OF h2 conjI [OF h3 conjI [OF h4 conjI [OF h5 h6]]]]]]]
  have fired: "effects (timerCallback (PublishTimer (Some 86400000)) 87400000 4 s4) =
       [CreateEvent ''grpA'' ''Weekly session'' 9000000000 9007200000] \<and>
     suspended (timerCallback (PublishTimer (Some 86400000)) 87400000 4 s4) =
       AwaitPublish ''pending_grpA_weekly_9000000000''"
    using idle by (simp add: p4 f4 dt h1 num_or_def)
  have job: "scheduledJobs s4 ''pending_grpA_weekly_9000000000'' = Some (PublishTimer (Some 86400000))"
    by (simp add: s4_def)
  have pb: "processing busyEngine" "queue busyEngine = []" "effects busyEngine = []"
    by (simp_all add: busyEngine_def emptyEngine_def)
  have ib: "id (pendingEvents busyEngine ! 0) = ''pending_grpA_weekly_20000000''"
    "groupId (pendingEvents busyEngine ! 0) = ''grpA''"
    "eventStartsAt (pendingEvents busyEngine ! 0) = Some 20000000"
    by (simp_all add: busyEngine_def emptyEngine_def examplePending_def)
  note busy = scheduleJob_ladder [where s' = busyEngine and j = 0 and now' = 8000000
      and d' = "Some 86400000", THEN conjunct2, THEN conjunct2, THEN conjunct2, THEN conjunct2,
      THEN conjunct1, THEN mp, OF pb(1)]
  have qb: "map q_pendingEventId
       (queue (timerCallback (PublishTimer (Some 86400000)) 8000000 0 busyEngine)) =
       [''pending_grpA_weekly_20000000'']"
    by (simp add: executeAutomatedPost_def queueEventPost_def processQueue_def pb ib sortQueue_def
        Let_def)
  have eb: "effects (timerCallback (PublishTimer (Some 86400000)) 8000000 0 busyEngine) = []"
    using arg_cong [where f = effects, OF busy [THEN conjunct2]] by (simp add: pb)
  show ?thesis
    using ladder fired job pb(1) qb eb unfolding sj by simp
qed

subsection \<open>Start instant of a slot key\<close>

lemma splitOn_nonempty: "splitOn c s \<noteq> []"
  by (induction s) (auto split: list.splits)

lemma splitOn_no_separator: "c \<notin> set ys \<Longrightarrow> splitOn c ys = [ys]"
  by (induction ys) auto

lemma splitOn_append: "splitOn c (xs @ c # ys) = splitOn c xs @ splitOn c ys"
proof (induction xs)
  case Nil
  show ?case by simp
next
  case (Cons x xs)
  obtain p ps where sp: "splitOn c xs = p # ps"
    using splitOn_nonempty [of c xs] by (cases "splitOn c xs") auto
  show ?case using Cons.IH by (simp add: sp)
qed

lemma last_splitOn_append: "last (splitOn c (xs @ c # ys)) = last (splitOn c ys)"
  by (simp add: splitOn_append splitOn_nonempty)

lemma last_token:
  "c \<notin> set tok \<Longrightarrow> last (splitOn c (pre @ c # tok)) = tok"
  by (simp add: last_splitOn_append splitOn_no_separator)

lemma digit_facts:
  "isDigit c \<Longrightarrow> \<not> isStrWhiteSpace c"
  "isDigit c \<Longrightarrow> c \<noteq> CHR ''_''"
  "isDigit c \<Longrightarrow> c \<noteq> CHR ''.''"
  "isDigit c \<Longrightarrow> c \<noteq> CHR ''+''"
  "isDigit c \<Longrightarrow> c \<noteq> CHR ''-''"
  "isDigit c \<Longrightarrow> c \<noteq> CHR ''x'' \<and> c \<noteq> CHR ''X'' \<and> c \<noteq> CHR ''o'' \<and> c \<noteq> CHR ''O'' \<and> c \<noteq> CHR ''b'' \<and> c \<noteq> CHR ''B''"
  "isDigit c \<Longrightarrow> c \<noteq> CHR ''I''"
  by (auto simp: isDigit_def isStrWhiteSpace_def)

lemma dropWhile_hd: "xs \<noteq> [] \<Longrightarrow> \<not> P (hd xs) \<Longrightarrow> dropWhile P xs = xs"
  by (cases xs) auto

lemma trimWs_id:
  assumes "s \<noteq> []" "\<not> isStrWhiteSpace (hd s)" "\<not> isStrWhiteSpace (last s)"
  shows "trimWs s = s"
proof -
  have a: "dropWhile isStrWhiteSpace s = s" using assms(1,2) by (rule dropWhile_hd)
  have "rev s \<noteq> []" "\<not> isStrWhiteSpace (hd (rev s))" using assms(1,3) by (simp_all add: hd_rev)
  then have b: "dropWhile isStrWhiteSpace (rev s) = rev s" by (rule dropWhile_hd)
  show ?thesis by (simp add: trimWs_def a b)
qed

lemma bitlen_powi:
  assumes "0 < p"
  shows "(2::rat) powi (bitlen p - 1) \<le> of_int p" "of_int p < (2::rat) powi (bitlen p)"
proof -
  have b: "2 ^ nat (bitlen p - 1) \<le> p" "p < 2 ^ nat (bitlen p)"
    using bitlen_bounds [OF assms] by simp_all
  have pos: "1 \<le> bitlen p" using assms bitlen_eq_zero_iff [of p] bitlen_nonneg [of p] by linarith
  have "(2::rat) powi (bitlen p - 1) = 2 ^ nat (bitlen p - 1)"
    using pos by (simp add: power_int_nonneg_exp)
  also have "\<dots> = of_int (2 ^ nat (bitlen p - 1))" by simp
  also have "\<dots> \<le> of_int p" using b(1) by (simp only: of_int_le_iff)
  finally show "(2::rat) powi (bitlen p - 1) \<le> of_int p" .
  have "(of_int p :: rat) < of_int (2 ^ nat (bitlen p))" using b(2) by (simp only: of_int_less_iff)
  also have "\<dots> = 2 ^ nat (bitlen p)" by simp
  also have "\<dots> = (2::rat) powi (bitlen p)" using pos by (simp add: power_int_nonneg_exp)
  finally show "of_int p < (2::rat) powi (bitlen p)" .
qed

lemma exponentOf_bounds:
  assumes "0 < r"
  shows "2 powi (exponentOf r) \<le> r \<and> r < 2 powi (exponentOf r + 1)"
proof -
  obtain p q where pq: "quotient_of r = (p, q)" by (cases "quotient_of r")
  have q: "0 < q" using pq by (rule quotient_of_denom_pos)
  have r: "r = of_int p / of_int q" using pq by (rule quotient_of_div)
  have p: "0 < p" using assms q r by (simp add: zero_less_divide_iff)
  define d where "d = bitlen p - bitlen q"
  have up: "r < 2 powi (d + 1)"
  proof -
    have "r * of_int q = of_int p" using r q by simp
    also have "\<dots> < 2 powi (bitlen p)" using bitlen_powi(2) [OF p] .
    also have "\<dots> = 2 powi (d + 1) * 2 powi (bitlen q - 1)"
      by (simp add: d_def power_int_add [symmetric])
    also have "\<dots> \<le> 2 powi (d + 1) * of_int q"
      using bitlen_powi(1) [OF q] by (simp add: mult_left_mono)
    finally show ?thesis using q by simp
  qed
  have lo: "2 powi (d - 1) \<le> r"
  proof -
    have "2 powi (d - 1) * of_int q \<le> 2 powi (d - 1) * (2::rat) powi (bitlen q)"
      using bitlen_powi(2) [OF q] by (simp add: mult_left_mono)
    also have "\<dots> = 2 powi (bitlen p - 1)" by (simp add: d_def power_int_add [symmetric])
    also have "\<dots> \<le> of_int p" using bitlen_powi(1) [OF p] .
    also have "\<dots> = r * of_int q" using r q by simp
    finally show ?thesis using q by simp
  qed
  have e: "exponentOf r = (if 2 powi d \<le> r then d else d - 1)"
    by (simp add: exponentOf_def pq d_def)
  show ?thesis
  proof (cases "2 powi d \<le> r")
    case True
    then show ?thesis using e up by simp
  next
    case False
    then show ?thesis using e lo by simp
  qed
qed

lemma exponentOf_unique:
  assumes "0 < r" and "2 powi e \<le> r" and "r < 2 powi (e + 1)"
  shows "exponentOf r = e"
proof -
  note b = exponentOf_bounds [OF assms(1)]
  have "\<not> exponentOf r < e"
  proof
    assume "exponentOf r < e"
    then have "(2::rat) powi (exponentOf r + 1) \<le> 2 powi e" by (simp add: power_int_increasing)
    then show False using b assms(2) by linarith
  qed
  moreover have "\<not> e < exponentOf r"
  proof
    assume "e < exponentOf r"
    then have "(2::rat) powi (e + 1) \<le> 2 powi (exponentOf r)" by (simp add: power_int_increasing)
    then show False using b assms(3) by linarith
  qed
  ultimately show ?thesis by linarith
qed

lemma roundHalfEven_of_int: "roundHalfEven (of_int k) = k"
  by (simp add: roundHalfEven_def)


lemma roundToDouble_of_int:
  assumes "\<bar>v\<bar> \<le> 2 ^ 53"
  shows "roundToDouble (rat_of_int v) = Finite (rat_of_int v)"
proof (cases "v = 0")
  case True
  then show ?thesis by (simp add: roundToDouble_def)
next
  case False
  define r where "r = rat_of_int \<bar>v\<bar>"
  define e where "e = exponentOf r"
  have r1: "1 \<le> r" using False by (simp add: r_def)
  have r2: "r \<le> 2 ^ 53"
  proof -
    have "rat_of_int \<bar>v\<bar> \<le> rat_of_int (2 ^ 53)" using assms by (simp only: of_int_le_iff)
    then show ?thesis by (simp add: r_def)
  qed
  have b: "2 powi e \<le> r" "r < 2 powi (e + 1)"
    using exponentOf_bounds [of r] r1 by (simp_all add: e_def)
  have e0: "0 \<le> e"
  proof (rule ccontr)
    assume "\<not> 0 \<le> e"
    then have "(2::rat) powi (e + 1) \<le> 2 powi 0" by (intro power_int_increasing) simp_all
    then show False using b(2) r1 by simp
  qed
  have e53: "e \<le> 53"
  proof (rule ccontr)
    assume "\<not> e \<le> 53"
    then have "(2::rat) powi 54 \<le> 2 powi e" by (intro power_int_increasing) simp_all
    then show False using b(1) r2 by simp
  qed
  define ulp where "ulp = (2::rat) powi (e - 52)"
  have ulp0: "0 < ulp" by (simp add: ulp_def)
  have "\<exists>k. r / ulp = rat_of_int k"
  proof (cases "e \<le> 52")
    case True
    have "r / ulp = r * 2 powi (52 - e)"
      by (simp add: ulp_def power_int_diff field_simps)
    also have "\<dots> = r * 2 ^ nat (52 - e)" using True by (simp add: power_int_nonneg_exp)
    also have "\<dots> = rat_of_int (\<bar>v\<bar> * 2 ^ nat (52 - e))" by (simp add: r_def)
    finally show ?thesis by blast
  next
    case False
    then have e: "e = 53" using e53 by simp
    have "r = 2 ^ 53" using b(1) r2 by (simp add: e)
    then have "r / ulp = rat_of_int (2 ^ 52)" by (simp add: ulp_def e)
    then show ?thesis by blast
  qed
  then obtain k where k: "r / ulp = rat_of_int k" by blast
  have "roundHalfEven (r / ulp) = k" by (simp add: k roundHalfEven_of_int)
  moreover have "rat_of_int k * ulp = r" using k ulp0 by (simp add: field_simps)
  ultimately have m: "rat_of_int (roundHalfEven (r / ulp)) * ulp = r" by simp
  have lt: "\<not> (2 ^ 1024 \<le> r)" using r2 by simp
  have av: "\<bar>rat_of_int v\<bar> = r" by (simp add: r_def)
  have mx: "max (exponentOf r) (- 1022) = e" using e0 by (simp add: e_def)
  have sg: "sgn (rat_of_int v) * r = rat_of_int v" unfolding av [symmetric] by (simp add: mult.commute [of "sgn _"] abs_mult_sgn)
  show ?thesis
    using False lt by (simp add: roundToDouble_def av mx Let_def ulp_def [symmetric] m sg)
qed

lemma roundToDouble_three_halves: "roundToDouble (3 / 2) = Finite (3 / 2)"
proof -
  have e: "exponentOf (3 / 2) = 0" by (rule exponentOf_unique) simp_all
  have x: "(3 / 2) / (2::rat) powi (- 52) = rat_of_int (3 * 2 ^ 51)" by simp
  have "roundHalfEven ((3 / 2) / (2::rat) powi (- 52)) = 3 * 2 ^ 51"
    unfolding x by (rule roundHalfEven_of_int)
  then show ?thesis by (simp add: roundToDouble_def e Let_def)
qed

lemma roundToDouble_rounds:
  "roundToDouble 9007199254740993 = Finite 9007199254740992"
proof -
  have e: "exponentOf 9007199254740993 = 53" by (rule exponentOf_unique) simp_all
  have f: "\<lfloor>9007199254740993 / 2 :: rat\<rfloor> = 4503599627370496"
    by (rule floor_unique) simp_all
  have "roundHalfEven (9007199254740993 / 2) = 4503599627370496"
    by (simp add: roundHalfEven_def Let_def f)
  then show ?thesis by (simp add: roundToDouble_def e Let_def)
qed


lemma roundHalfEven_le: "x < rat_of_int k + 1 / 2 \<Longrightarrow> roundHalfEven x \<le> k"
proof -
  assume a: "x < rat_of_int k + 1 / 2"
  have "\<lfloor>x\<rfloor> \<le> k" using a by (simp add: floor_le_iff)
  then consider "\<lfloor>x\<rfloor> \<le> k - 1" | "\<lfloor>x\<rfloor> = k" by linarith
  then show ?thesis
  proof cases
    case 1
    then show ?thesis by (simp add: roundHalfEven_def Let_def)
  next
    case 2
    then have "x - rat_of_int \<lfloor>x\<rfloor> < 1 / 2" using a by simp
    then show ?thesis using 2 by (simp add: roundHalfEven_def Let_def)
  qed
qed

lemma roundHalfEven_ge: "rat_of_int k \<le> x \<Longrightarrow> k \<le> roundHalfEven x"
proof -
  assume "rat_of_int k \<le> x"
  then have "k \<le> \<lfloor>x\<rfloor>" by (simp add: le_floor_iff)
  then show ?thesis by (simp add: roundHalfEven_def Let_def)
qed

lemma roundHalfEven_ge_half:
  assumes "rat_of_int k - 1 / 2 \<le> x" and "even k"
  shows "k \<le> roundHalfEven x"
proof -
  have "k - 1 \<le> \<lfloor>x\<rfloor>" using assms(1) by (simp add: le_floor_iff)
  then consider "k \<le> \<lfloor>x\<rfloor>" | "\<lfloor>x\<rfloor> = k - 1" by linarith
  then show ?thesis
  proof cases
    case 1
    then show ?thesis by (simp add: roundHalfEven_def Let_def)
  next
    case 2
    then have fr: "\<not> x - rat_of_int \<lfloor>x\<rfloor> < 1 / 2" using assms(1) by simp
    have "odd \<lfloor>x\<rfloor>" using 2 assms(2) by simp
    then show ?thesis using 2 fr by (simp add: roundHalfEven_def Let_def)
  qed
qed

lemma roundToDouble_finite:
  assumes "v \<noteq> 0" and "\<bar>v\<bar> < 2 ^ 1024 - 2 ^ 970"
  shows "\<exists>m. roundToDouble v = Finite m"
proof -
  define r where "r = \<bar>v\<bar>"
  have r0: "0 < r" using assms(1) by (simp add: r_def)
  define E where "E = max (exponentOf r) (- 1022)"
  define ulp where "ulp = (2::rat) powi (E - 52)"
  have ulp0: "0 < ulp" by (simp add: ulp_def)
  note b = exponentOf_bounds [OF r0]
  have e: "exponentOf r \<le> 1023"
  proof (rule ccontr)
    assume "\<not> exponentOf r \<le> 1023"
    then have "(2::rat) powi 1024 \<le> 2 powi (exponentOf r)" by (intro power_int_increasing) simp_all
    then have "(2::rat) ^ 1024 \<le> r" using b by simp
    then show False using assms(2) by (simp add: r_def)
  qed
  then have E: "E \<le> 1023" by (simp add: E_def)
  have rE: "r < 2 powi (E + 1)"
  proof -
    have "(2::rat) powi (exponentOf r + 1) \<le> 2 powi (E + 1)"
      by (intro power_int_increasing) (simp_all add: E_def)
    then show ?thesis using b by linarith
  qed
  have "rat_of_int (roundHalfEven (r / ulp)) * ulp < 2 ^ 1024"
  proof (cases "E = 1023")
    case True
    have u: "ulp = 2 ^ 971" by (simp add: ulp_def True)
    have "r / ulp < rat_of_int (2 ^ 53 - 1) + 1 / 2"
      using assms(2) by (simp add: r_def u field_simps)
    then have "roundHalfEven (r / ulp) \<le> 2 ^ 53 - 1" by (rule roundHalfEven_le)
    then have "rat_of_int (roundHalfEven (r / ulp)) \<le> rat_of_int (2 ^ 53 - 1)"
      by (simp only: of_int_le_iff)
    then have "rat_of_int (roundHalfEven (r / ulp)) * ulp \<le> rat_of_int (2 ^ 53 - 1) * ulp"
      using ulp0 by (simp add: mult_right_mono)
    also have "\<dots> < 2 ^ 1024" by (simp add: u)
    finally show ?thesis .
  next
    case False
    then have E2: "E + 1 \<le> 1023" using E by simp
    have "r / ulp < 2 powi (E + 1) / ulp" using rE ulp0 by (simp add: divide_strict_right_mono)
    also have "\<dots> = 2 powi 53" by (simp add: ulp_def power_int_diff [symmetric])
    finally have "r / ulp < 2 powi 53" .
    moreover have "(2::rat) powi 53 = rat_of_int (2 ^ 53)" by simp
    ultimately have "r / ulp < rat_of_int (2 ^ 53) + 1 / 2" by linarith
    then have "roundHalfEven (r / ulp) \<le> 2 ^ 53" by (rule roundHalfEven_le)
    then have "rat_of_int (roundHalfEven (r / ulp)) \<le> rat_of_int (2 ^ 53)"
      by (simp only: of_int_le_iff)
    then have "rat_of_int (roundHalfEven (r / ulp)) * ulp \<le> rat_of_int (2 ^ 53) * ulp"
      using ulp0 by (simp add: mult_right_mono)
    also have "\<dots> = 2 powi (E + 1)"
    proof -
      have c: "rat_of_int (2 ^ 53) = 2 powi 53" by simp
      have d: "53 + (E - 52) = E + 1" by simp
      have "rat_of_int (2 ^ 53) * ulp = 2 powi 53 * 2 powi (E - 52)" by (simp only: c ulp_def)
      also have "\<dots> = 2 powi (53 + (E - 52))" by (rule power_int_add [symmetric]) simp
      finally show ?thesis by (simp only: d)
    qed
    also have "\<dots> \<le> 2 powi 1023" using E2 by (intro power_int_increasing) simp_all
    also have "\<dots> < 2 ^ 1024" by simp
    finally show ?thesis .
  qed
  then have "\<not> 2 ^ 1024 \<le> rat_of_int (roundHalfEven (r / ulp)) * ulp" by simp
  then show ?thesis
    using assms(1) unfolding roundToDouble_def Let_def r_def [symmetric] E_def [symmetric]
      ulp_def [symmetric] by simp
qed

lemma roundToDouble_infinite:
  assumes "2 ^ 1024 - 2 ^ 970 \<le> \<bar>v\<bar>"
  shows "roundToDouble v = Infinite"
proof -
  define r where "r = \<bar>v\<bar>"
  have r0: "0 < r" using assms by (simp add: r_def)
  have v0: "v \<noteq> 0" using r0 by (auto simp: r_def)
  define E where "E = max (exponentOf r) (- 1022)"
  define ulp where "ulp = (2::rat) powi (E - 52)"
  have ulp0: "0 < ulp" by (simp add: ulp_def)
  note b = exponentOf_bounds [OF r0]
  have e: "1023 \<le> exponentOf r"
  proof (rule ccontr)
    assume "\<not> 1023 \<le> exponentOf r"
    then have "(2::rat) powi (exponentOf r + 1) \<le> 2 powi 1023"
      by (intro power_int_increasing) simp_all
    then have "r < 2 ^ 1023" using b by simp
    then show False using assms by (simp add: r_def)
  qed
  then have E: "E = exponentOf r" by (simp add: E_def)
  have "2 ^ 1024 \<le> rat_of_int (roundHalfEven (r / ulp)) * ulp"
  proof (cases "E = 1023")
    case True
    have u: "ulp = 2 ^ 971" by (simp add: ulp_def True)
    have "rat_of_int (2 ^ 53) - 1 / 2 \<le> r / ulp"
      using assms by (simp add: r_def u field_simps)
    then have "2 ^ 53 \<le> roundHalfEven (r / ulp)" by (rule roundHalfEven_ge_half) simp
    then have "rat_of_int (2 ^ 53) \<le> rat_of_int (roundHalfEven (r / ulp))"
      by (simp only: of_int_le_iff)
    then have "rat_of_int (2 ^ 53) * ulp \<le> rat_of_int (roundHalfEven (r / ulp)) * ulp"
      using ulp0 by (simp add: mult_right_mono)
    then show ?thesis by (simp add: u)
  next
    case False
    then have E2: "1024 \<le> E" using e E by simp
    have "(2::rat) powi 52 = 2 powi E / ulp" by (simp add: ulp_def power_int_diff [symmetric])
    also have "\<dots> \<le> r / ulp" using b ulp0 by (simp add: E divide_right_mono)
    finally have "rat_of_int (2 ^ 52) \<le> r / ulp" by simp
    then have "2 ^ 52 \<le> roundHalfEven (r / ulp)" by (rule roundHalfEven_ge)
    then have "rat_of_int (2 ^ 52) \<le> rat_of_int (roundHalfEven (r / ulp))"
      by (simp only: of_int_le_iff)
    then have "rat_of_int (2 ^ 52) * ulp \<le> rat_of_int (roundHalfEven (r / ulp)) * ulp"
      using ulp0 by (simp add: mult_right_mono)
    moreover have "rat_of_int (2 ^ 52) * ulp = 2 powi E"
    proof -
      have c: "rat_of_int (2 ^ 52) = 2 powi 52" by simp
      have d: "52 + (E - 52) = E" by simp
      have "rat_of_int (2 ^ 52) * ulp = 2 powi 52 * 2 powi (E - 52)" by (simp only: c ulp_def)
      also have "\<dots> = 2 powi (52 + (E - 52))" by (rule power_int_add [symmetric]) simp
      finally show ?thesis by (simp only: d)
    qed
    moreover have "(2::rat) powi 1024 \<le> 2 powi E" using E2 by (intro power_int_increasing) simp_all
    ultimately show ?thesis by simp
  qed
  then show ?thesis
    using v0 unfolding roundToDouble_def Let_def r_def [symmetric] E_def [symmetric]
      ulp_def [symmetric] by simp
qed

lemma digits_unsigned:
  assumes "ds \<noteq> []" "list_all isDigit ds"
  shows "parseUnsignedDecimal ds = roundToDouble (of_nat (natOfDigits ds))"
proof -
  have ne: "ds \<noteq> ''Infinity''" using assms(2) by (auto simp: isDigit_def)
  have t: "takeWhile isDigit ds = ds" "dropWhile isDigit ds = []"
    using assms(2) by (simp_all add: list_all_iff)
  show ?thesis using assms(1)
    by (simp add: parseUnsignedDecimal_def ne t parseExponent_def natOfDigits_def)
qed

lemma digits_trim:
  assumes "ds \<noteq> []" "list_all isDigit ds"
  shows "\<not> isStrWhiteSpace (last ds)" "\<not> isStrWhiteSpace (hd ds)"
  using assms by (auto simp: list_all_iff digit_facts(1))

lemma Number_plain: "trimWs t = t \<Longrightarrow> t \<noteq> [] \<Longrightarrow> parseNonDecimal t = None \<Longrightarrow> Number t = parseDecimal t"
  by (simp add: Number_def)

lemma Number_signed_integer:
  assumes "isSignedInteger tok"
  shows "Number tok = roundToDouble (of_int (signedIntegerValue tok))"
proof (cases tok)
  case Nil
  then show ?thesis using assms by (simp add: isSignedInteger_def)
next
  case (Cons c ds)
  have ne: "tok \<noteq> []" using Cons by simp
  show ?thesis
  proof (cases "c = CHR ''-'' \<or> c = CHR ''+''")
    case True
    then have ds: "ds \<noteq> []" "list_all isDigit ds"
      using assms Cons by (auto simp: isSignedInteger_def)
    have ws: "\<not> isStrWhiteSpace (hd tok)" using True Cons by (auto simp: isStrWhiteSpace_def)
    have "last tok = last ds" using Cons ds(1) by simp
    then have tr: "trimWs tok = tok"
      using trimWs_id [OF ne ws] digits_trim(1) [OF ds] by simp
    have nd: "parseNonDecimal tok = None"
      using True Cons by (auto simp: parseNonDecimal_def split: list.splits)
    have cl: "roundToDouble (- v) = negateNumber (roundToDouble v)" for v
      by (simp add: roundToDouble_def negateNumber_def Let_def)
    have "parseDecimal tok = roundToDouble (of_int (signedIntegerValue tok))"
      using True Cons
      by (auto simp: parseDecimal_def digits_unsigned [OF ds] signedIntegerValue_def cl)
    then show ?thesis using Number_plain [OF tr ne nd] by simp
  next
    case False
    then have all: "list_all isDigit tok" using assms Cons by (simp add: isSignedInteger_def)
    have tr: "trimWs tok = tok"
      using trimWs_id [OF ne] digits_trim [OF ne all] by simp
    have dc: "isDigit c" using all Cons by simp
    have nd: "parseNonDecimal tok = None"
    proof (cases ds)
      case Nil
      then show ?thesis using Cons by (simp add: parseNonDecimal_def)
    next
      case (Cons d ds')
      then have "isDigit d" using all \<open>tok = c # ds\<close> by simp
      then show ?thesis using Cons \<open>tok = c # ds\<close> digit_facts(6) [of d]
        by (simp add: parseNonDecimal_def)
    qed
    have "parseDecimal tok = parseUnsignedDecimal tok"
      using False Cons by (simp add: parseDecimal_def)
    moreover have "signedIntegerValue tok = int (natOfDigits tok)"
      using False Cons by (simp add: signedIntegerValue_def)
    ultimately show ?thesis
      using Number_plain [OF tr ne nd] digits_unsigned [OF ne all] by simp
  qed
qed

lemma digits_no_underscore: "list_all isDigit ds \<Longrightarrow> CHR ''_'' \<notin> set ds"
  by (auto simp: list_all_iff isDigit_def)

lemma signed_integer_no_underscore: "isSignedInteger tok \<Longrightarrow> CHR ''_'' \<notin> set tok"
proof (cases tok)
  case Nil
  then show ?thesis by simp
next
  case (Cons c ds)
  assume a: "isSignedInteger tok"
  show ?thesis
  proof (cases "c = CHR ''-'' \<or> c = CHR ''+''")
    case True
    then have "list_all isDigit ds" using a Cons by (auto simp: isSignedInteger_def)
    then show ?thesis using True Cons digits_no_underscore [of ds] by auto
  next
    case False
    then have "list_all isDigit tok" using a Cons by (simp add: isSignedInteger_def)
    then show ?thesis by (rule digits_no_underscore)
  qed
qed

lemma Number_integer_token:
  assumes "isSignedInteger tok"
  shows "parsePendingEventIdStartMs (Some (pre @ ''_'' @ tok)) =
           (case roundToDouble (rat_of_int (signedIntegerValue tok)) of
              Finite ms \<Rightarrow> Some ms | _ \<Rightarrow> None)"
proof -
  have "last (splitOn (CHR ''_'') (pre @ ''_'' @ tok)) = tok"
    using last_token [of "CHR ''_''" tok pre] signed_integer_no_underscore assms by simp
  then show ?thesis
    by (simp add: parsePendingEventIdStartMs_def truthy_def Number_signed_integer [OF assms])
qed

lemma parse_integer_token:
  assumes "isSignedInteger tok" and "\<bar>signedIntegerValue tok\<bar> \<le> 2 ^ 53"
  shows "parsePendingEventIdStartMs (Some (pre @ ''_'' @ tok)) = Some (rat_of_int (signedIntegerValue tok))"
  using Number_integer_token [OF assms(1), of pre] roundToDouble_of_int [OF assms(2)] by simp

text \<open>
  Claim C9, as the code has it. The start milliseconds of a slot id are read from the text
  after the final underscore alone: the result is \<^verbatim>\<open>Number\<close> of that token when it is
  finite and null otherwise. A token that is a signed integer yields a value exactly when
  its magnitude is below \<open>2^1024 - 2^970\<close>, the integer rounded to the nearest double; up to
  a magnitude of \<open>2^53\<close>, which covers every time value of a Date, it yields exactly that
  integer.
\<close>

theorem slot_start_extraction:
  "(CHR ''_'' \<notin> set tok \<longrightarrow>
      parsePendingEventIdStartMs (Some (pre @ ''_'' @ tok)) =
        (case Number tok of Finite ms \<Rightarrow> Some ms | _ \<Rightarrow> None)) \<and>
   (isSignedInteger tok \<longrightarrow>
      ((parsePendingEventIdStartMs (Some (pre @ ''_'' @ tok)) \<noteq> None) =
         (\<bar>rat_of_int (signedIntegerValue tok)\<bar> < 2 ^ 1024 - 2 ^ 970)) \<and>
      (\<bar>signedIntegerValue tok\<bar> \<le> 2 ^ 53 \<longrightarrow>
         parsePendingEventIdStartMs (Some (pre @ ''_'' @ tok)) =
           Some (rat_of_int (signedIntegerValue tok))))"
proof (intro conjI impI)
  assume "CHR ''_'' \<notin> set tok"
  then show "parsePendingEventIdStartMs (Some (pre @ ''_'' @ tok)) =
        (case Number tok of Finite ms \<Rightarrow> Some ms | _ \<Rightarrow> None)"
    using last_token [of "CHR ''_''" tok pre]
    by (simp add: parsePendingEventIdStartMs_def truthy_def)
next
  assume a: "isSignedInteger tok"
  define v where "v = rat_of_int (signedIntegerValue tok)"
  note n = Number_integer_token [OF a, of pre, folded v_def]
  show "(parsePendingEventIdStartMs (Some (pre @ ''_'' @ tok)) \<noteq> None) =
         (\<bar>rat_of_int (signedIntegerValue tok)\<bar> < 2 ^ 1024 - 2 ^ 970)"
    unfolding v_def [symmetric]
  proof (cases "\<bar>v\<bar> < 2 ^ 1024 - 2 ^ 970")
    case True
    have "\<exists>m. roundToDouble v = Finite m"
    proof (cases "v = 0")
      case True
      then show ?thesis by (simp add: roundToDouble_def)
    next
      case False
      then show ?thesis using True by (rule roundToDouble_finite)
    qed
    then show "(parsePendingEventIdStartMs (Some (pre @ ''_'' @ tok)) \<noteq> None) =
         (\<bar>v\<bar> < 2 ^ 1024 - 2 ^ 970)"
      using True n by auto
  next
    case False
    then have "roundToDouble v = Infinite" by (intro roundToDouble_infinite) simp
    then show "(parsePendingEventIdStartMs (Some (pre @ ''_'' @ tok)) \<noteq> None) =
         (\<bar>v\<bar> < 2 ^ 1024 - 2 ^ 970)"
      using False n by simp
  qed
next
  assume "isSignedInteger tok" and "\<bar>signedIntegerValue tok\<bar> \<le> 2 ^ 53"
  then show "parsePendingEventIdStartMs (Some (pre @ ''_'' @ tok)) =
           Some (rat_of_int (signedIntegerValue tok))"
    by (rule parse_integer_token)
qed

theorem slot_start_extraction_witness:
  "CHR ''_'' \<notin> set ''1780221600000'' \<and> isSignedInteger ''1780221600000'' \<and>
   \<bar>signedIntegerValue ''1780221600000''\<bar> \<le> 2 ^ 53 \<and>
   parsePendingEventIdStartMs (Some ''pending_grp_weekly_1780221600000'') = Some 1780221600000"
proof -
  have a: "CHR ''_'' \<notin> set ''1780221600000''" by simp
  have b: "isSignedInteger ''1780221600000''" by (simp add: isSignedInteger_def isDigit_def)
  have v: "signedIntegerValue ''1780221600000'' = 1780221600000"
    by (simp add: signedIntegerValue_def natOfDigits_def digitVal_def)
  have c: "\<bar>signedIntegerValue ''1780221600000''\<bar> \<le> 2 ^ 53"
    unfolding v by simp
  note t = slot_start_extraction [where tok = "''1780221600000''" and pre = "''pending_grp_weekly''",
      THEN conjunct2, THEN mp, OF b, THEN conjunct2, THEN mp, OF c]
  note u = slot_start_extraction [where tok = "''1780221600000''" and pre = "''pending_grp_weekly''",
      THEN conjunct1, THEN mp, OF a]
  show ?thesis using t u a b c v by simp
qed

text \<open>
  Claim C9 as stated, "a value exactly when the final token is parseable as a signed
  integer", fails: the empty token after a trailing underscore is no integer and yields 0,
  and the token \<open>1.5\<close> yields one and a half.
\<close>

theorem slot_start_extraction_counterexample:
  "parsePendingEventIdStartMs (Some ''pending_grp_weekly_'') = Some 0 \<and>
   last (splitOn (CHR ''_'') ''pending_grp_weekly_'') = [] \<and>
   \<not> isSignedInteger [] \<and>
   parsePendingEventIdStartMs (Some ''pending_grp_weekly_1.5'') = Some (3 / 2) \<and>
   \<not> isSignedInteger ''1.5''"
proof -
  have e: "parsePendingEventIdStartMs (Some ''pending_grp_weekly_'') = Some 0 \<and>
           last (splitOn (CHR ''_'') ''pending_grp_weekly_'') = [] \<and> \<not> isSignedInteger []"
    by (simp add: parsePendingEventIdStartMs_def truthy_def Number_def trimWs_def
        isSignedInteger_def)
  have l: "last (splitOn (CHR ''_'') (''pending_grp_weekly'' @ CHR ''_'' # ''1.5'')) = ''1.5''"
    by (rule last_token) simp
  have n: "Number ''1.5'' = Finite (3 / 2)"
    by (simp add: Number_def trimWs_def isStrWhiteSpace_def parseNonDecimal_def parseDecimal_def
        parseUnsignedDecimal_def isDigit_def parseExponent_def natOfDigits_def digitVal_def
        roundToDouble_three_halves)
  have f: "parsePendingEventIdStartMs (Some ''pending_grp_weekly_1.5'') = Some (3 / 2) \<and>
           \<not> isSignedInteger ''1.5''"
    using l n
    by (simp add: parsePendingEventIdStartMs_def truthy_def isSignedInteger_def isDigit_def)
  show ?thesis using e f by simp
qed

text \<open>Above \<open>2^53\<close> the start read off a slot id is the nearest double, not the integer
  written in the id.\<close>

lemma slot_start_rounds:
  "parsePendingEventIdStartMs (Some ''pending_grp_weekly_9007199254740993'') =
     Some 9007199254740992"
proof -
  have i: "isSignedInteger ''9007199254740993''" by (simp add: isSignedInteger_def isDigit_def)
  have v: "signedIntegerValue ''9007199254740993'' = 9007199254740993"
    by (simp add: signedIntegerValue_def natOfDigits_def digitVal_def)
  show ?thesis
    using Number_integer_token [OF i, of "''pending_grp_weekly''"]
    by (simp add: v roundToDouble_rounds)
qed

subsection \<open>Publish-time calculation\<close>

lemma hardCap_le: "hardCap st raw \<le> st - 30 * 60 * 1000"
  by (simp add: hardCap_def MIN_BUFFER_MS_def Let_def)

lemma newPendingEvent_expansionRecord:
  "now < hardCap d raw \<Longrightarrow> (case m of None \<Rightarrow> True | Some mm \<Rightarrow> mm < rat_of_int d) \<Longrightarrow>
   expansionRecord now g k m (newPendingEvent g k d (hardCap d raw))"
  using hardCap_le [of d raw] by (simp add: expansionRecord_def newPendingEvent_def Let_def)

lemma calculatePendingEvents_loop_records:
  "calculatePendingEvents_loop tz now g k prof a ps maxEvents m ds acc = Some out \<Longrightarrow>
   list_all (expansionRecord now g k m) acc \<Longrightarrow>
   list_all (expansionRecord now g k m) out"
proof (induction tz now g k prof a ps maxEvents m ds acc rule: calculatePendingEvents_loop.induct)
  case (1 tz now g k prof a ps maxEvents m acc)
  then show ?case by simp
next
  case (2 tz now g k prof a ps maxEvents m d ds acc)
  show ?case
  proof (cases "length acc \<ge> maxEvents \<or>
                (repeatMode a = ''count'' \<and> eventsCreated ps + int (length acc) + 1 > repeatCount a)")
    case True
    then have "out = acc" using "2.prems"(1) by (auto split: if_splits)
    then show ?thesis using "2.prems"(2) by simp
  next
    case stop: False
    show ?thesis
    proof (cases "m \<noteq> None \<and> rat_of_int d \<le> the m")
      case True
      then show ?thesis using stop "2.IH"(1) "2.prems" by auto
    next
      case keep: False
      then have md: "case m of None \<Rightarrow> True | Some mm \<Rightarrow> mm < rat_of_int d"
        by (auto split: option.splits)
      show ?thesis
      proof (cases "slotPublishTime tz now prof a ps acc d")
        case None
        then show ?thesis using stop keep "2.prems"(1) by auto
      next
        case (Some raw)
        show ?thesis
        proof (cases "hardCap d raw \<le> now")
          case True
          then show ?thesis using stop keep Some "2.IH"(2) "2.prems" by (auto simp: Let_def)
        next
          case False
          then have "expansionRecord now g k m (newPendingEvent g k d (hardCap d raw))"
            using md newPendingEvent_expansionRecord by simp
          then have "list_all (expansionRecord now g k m) (acc @ [newPendingEvent g k d (hardCap d raw)])"
            using "2.prems"(2) by simp
          moreover have "calculatePendingEvents_loop tz now g k prof a ps maxEvents m ds
                    (acc @ [newPendingEvent g k d (hardCap d raw)]) = Some out"
            using stop keep Some False "2.prems"(1) by (auto simp: Let_def)
          ultimately show ?thesis using stop keep Some False "2.IH"(3) by (auto simp: Let_def)
        qed
      qed
    qed
  qed
qed

lemma calculatePendingEvents_records:
  "calculatePendingEvents tz now dateOptions g k profOpt maxEvents m s = (Some out, s') \<Longrightarrow>
   list_all (expansionRecord now g k m) out"
  using calculatePendingEvents_loop_records [where acc = "[]"]
  by (auto simp: calculatePendingEvents_def Let_def split: option.splits if_splits prod.splits)

lemma expansionRecord_bound:
  "expansionRecord now g k m e \<Longrightarrow>
   status e = ''scheduled'' \<and>
   (\<exists>d q. eventStartsAt e = Some d \<and> scheduledPublishTime e = Some q \<and> q \<le> d - 30 * 60 * 1000)"
  by (cases "eventStartsAt e"; cases "scheduledPublishTime e") (simp_all add: expansionRecord_def)

lemma expansionRecord_after:
  "expansionRecord now g k (Some a) e \<Longrightarrow> \<exists>d. eventStartsAt e = Some d \<and> a < rat_of_int d"
  by (cases "eventStartsAt e"; cases "scheduledPublishTime e") (simp_all add: expansionRecord_def)

text \<open>
  Claim C3, as the code has it. \<^verbatim>\<open>calculatePublishTime\<close> never returns a time later than
  30 minutes before the start: a calculated time at or before \<open>start - 30 min\<close> is kept as
  it is, a later one becomes \<open>start - 30 min\<close>. Every record made by slot expansion is
  scheduled with a publish time of at most \<open>start - 30 min\<close>.
\<close>

theorem publish_time_cap:
  "(calculatePublishTime tz st prof = Some p \<longrightarrow>
      p \<le> st - 30 * 60 * 1000 \<and>
      (\<exists>a. prof \<noteq> None \<and> automation (the prof) = Some a \<and> enabled a \<and>
         (rawPublishTime tz a st \<le> st - 30 * 60 * 1000 \<longrightarrow> p = rawPublishTime tz a st) \<and>
         (rawPublishTime tz a st > st - 30 * 60 * 1000 \<longrightarrow> p = st - 30 * 60 * 1000))) \<and>
   (calculatePendingEvents tz now dateOptions g k profOpt maxEvents m s = (Some out, s') \<longrightarrow>
      (\<forall>e \<in> set out. status e = ''scheduled'' \<and>
         (\<exists>d q. eventStartsAt e = Some d \<and> scheduledPublishTime e = Some q \<and>
                 q \<le> d - 30 * 60 * 1000)))"
proof (rule conjI)
  show "calculatePublishTime tz st prof = Some p \<longrightarrow>
      p \<le> st - 30 * 60 * 1000 \<and>
      (\<exists>a. prof \<noteq> None \<and> automation (the prof) = Some a \<and> enabled a \<and>
         (rawPublishTime tz a st \<le> st - 30 * 60 * 1000 \<longrightarrow> p = rawPublishTime tz a st) \<and>
         (rawPublishTime tz a st > st - 30 * 60 * 1000 \<longrightarrow> p = st - 30 * 60 * 1000))"
    by (auto simp: calculatePublishTime_def hardCap_def MIN_BUFFER_MS_def Let_def
        split: option.splits if_splits)
next
  show "calculatePendingEvents tz now dateOptions g k profOpt maxEvents m s = (Some out, s') \<longrightarrow>
      (\<forall>e \<in> set out. status e = ''scheduled'' \<and>
         (\<exists>d q. eventStartsAt e = Some d \<and> scheduledPublishTime e = Some q \<and>
                 q \<le> d - 30 * 60 * 1000))"
  proof
    assume "calculatePendingEvents tz now dateOptions g k profOpt maxEvents m s = (Some out, s')"
    then have "list_all (expansionRecord now g k m) out" by (rule calculatePendingEvents_records)
    then show "\<forall>e \<in> set out. status e = ''scheduled'' \<and>
         (\<exists>d q. eventStartsAt e = Some d \<and> scheduledPublishTime e = Some q \<and>
                 q \<le> d - 30 * 60 * 1000)"
      using expansionRecord_bound by (auto simp: list_all_iff)
  qed
qed

theorem publish_time_cap_witness:
  "calculatePublishTime 0 2000000000 (Some weeklyProfile) = Some 1740800000 \<and>
   (1740800000::int) \<le> 2000000000 - 30 * 60 * 1000 \<and>
   calculatePendingEvents 0 1779000000000 [1780826400000] ''grp'' ''weekly''
       (Some weeklyProfile) 10 None emptyEngine =
     (Some [newPendingEvent ''grp'' ''weekly'' 1780826400000 1780567200000],
      emptyEngine\<lparr>automationState := [''grp::weekly'' \<mapsto> freshProfileState]\<rparr>) \<and>
   status (newPendingEvent ''grp'' ''weekly'' 1780826400000 1780567200000) = ''scheduled'' \<and>
   scheduledPublishTime (newPendingEvent ''grp'' ''weekly'' 1780826400000 1780567200000) =
     Some 1780567200000"
proof -
  have a: "calculatePublishTime 0 2000000000 (Some weeklyProfile) = Some 1740800000"
    by (simp add: calculatePublishTime_def weeklyProfile_def threeDaysBefore_def
        rawPublishTime_def offsetMs_def num_or_def hardCap_def MIN_BUFFER_MS_def Let_def)
  have b: "calculatePendingEvents 0 1779000000000 [1780826400000] ''grp'' ''weekly''
       (Some weeklyProfile) 10 None emptyEngine =
     (Some [newPendingEvent ''grp'' ''weekly'' 1780826400000 1780567200000],
      emptyEngine\<lparr>automationState := [''grp::weekly'' \<mapsto> freshProfileState]\<rparr>)"
    by (simp add: calculatePendingEvents_def weeklyProfile_def threeDaysBefore_def
        getOrCreateProfileState_def getProfileStateKey_def emptyEngine_def
        slotPublishTime_def offsetMs_def num_or_def hardCap_def MIN_BUFFER_MS_def Let_def
        freshProfileState_def)
  note t = publish_time_cap [where tz = 0 and st = 2000000000 and prof = "Some weeklyProfile"
      and p = 1740800000 and now = 1779000000000 and dateOptions = "[1780826400000]"
      and g = "''grp''" and k = "''weekly''" and profOpt = "Some weeklyProfile"
      and maxEvents = 10 and m = None and s = emptyEngine
      and out = "[newPendingEvent ''grp'' ''weekly'' 1780826400000 1780567200000]"
      and s' = "emptyEngine\<lparr>automationState := [''grp::weekly'' \<mapsto> freshProfileState]\<rparr>"]
  show ?thesis using t a b by (auto simp: newPendingEvent_def Let_def)
qed

text \<open>
  Claim C3 as stated, for every scheduled record and every operation that rewrites the
  publish time, fails: rescheduling a missed record whose event starts in under 17 minutes
  leaves it scheduled with a publish time of now plus 5 minutes, which is after
  \<open>start - 30 min\<close>.
\<close>

theorem reschedule_breaks_cap_counterexample:
  "(case handleMissedEvent 1000000 ''pending_grp_monthly_2000000'' ''reschedule'' missedEngine of
      (r, s') \<Rightarrow>
        r = OkResult \<and>
        status (pendingEvents s' ! 0) = ''scheduled'' \<and>
        eventStartsAt (pendingEvents s' ! 0) = Some 2000000 \<and>
        scheduledPublishTime (pendingEvents s' ! 0) = Some 1300000 \<and>
        \<not> (1300000 \<le> (2000000::int) - 30 * 60 * 1000))"
proof -
  have pe: "pendingEvents missedEngine =
      [examplePending ''pending_grp_monthly_2000000'' ''grp'' ''monthly'' 2000000 100000 ''missed'']"
    by (simp add: missedEngine_def emptyEngine_def)
  have f: "findPending ''pending_grp_monthly_2000000'' missedEngine = Some 0"
    by (simp add: findPending_def pe examplePending_def)
  have e0: "pendingEvents missedEngine ! 0 =
      examplePending ''pending_grp_monthly_2000000'' ''grp'' ''monthly'' 2000000 100000 ''missed''"
    by (simp add: pe)
  have l: "lookupProfile missedEngine ''grp'' ''monthly'' = Some monthEndProfile"
    by (simp add: lookupProfile_def missedEngine_def emptyEngine_def)
  have a: "automation monthEndProfile = Some monthEndAutomation" "enabled monthEndAutomation"
    by (simp_all add: monthEndProfile_def monthEndAutomation_def)
  have r: "reschedulePublishTime 1000000 monthEndAutomation (Some 2000000) = Some 1300000"
    by (simp add: reschedulePublishTime_def monthEndAutomation_def)
  have h: "handleMissedEvent 1000000 ''pending_grp_monthly_2000000'' ''reschedule'' missedEngine =
        (OkResult,
         scheduleJob 1000000 0
           (savePendingEvents
              (modifyPending 0
                 (\<lambda>e. e\<lparr>scheduledPublishTime := Some 1300000, status := ''scheduled'',
                         missedAt := None\<rparr>) missedEngine)))"
    by (simp add: handleMissedEvent_def f e0 l a r examplePending_def)
  show ?thesis
    unfolding h
    by (simp add: scheduleJob_def savePendingEvents_def emit_def modifyPending_def pe
        examplePending_def getRecheckIntervalMs_def ONE_DAY_MS_def setJob_def Let_def)
qed

subsection \<open>Monthly timing mode\<close>

lemma may31: "getFullYear 0 1780221600000 = 2026" "getMonth 0 1780221600000 = 4"
  by code_simp+

lemma last_days: "lastDayOfMonth 0 2026 4 = 31" "lastDayOfMonth 0 2026 3 = 30"
  by code_simp+

lemma may_newDate: "newDate 0 2026 4 31 12 0 = 1780228800000" "newDate 0 2026 3 30 12 0 = 1777550400000"
  by code_simp+

lemma may_setMonth: "setMonth 0 1780228800000 3 = 1777636800000"
  by code_simp

lemma may1: "getFullYear 0 1777636800000 = 2026" "getMonth 0 1777636800000 = 4" "getMonth 0 1780228800000 = 4"
  by code_simp+

lemma may_setDate: "setDate 0 1777636800000 31 = 1780228800000"
  by code_simp

lemma monthly_agrees_without_step_back:
  assumes "monthlyDay a \<noteq> 0" "monthlyHour a \<noteq> 0"
    and "newDate tz (getFullYear tz st) (getMonth tz st)
           (min (monthlyDay a) (lastDayOfMonth tz (getFullYear tz st) (getMonth tz st)))
           (monthlyHour a) (monthlyMinute a) < st"
  shows "monthlyPublishTime tz a st = spec_monthlyPublishTime tz a st"
  using assms by (simp add: monthlyPublishTime_def spec_monthlyPublishTime_def num_or_def Let_def)

text \<open>
  Claim C4 at an event on 2026-05-31 10:00 with \<open>monthlyDay = 31\<close>, 12:00. The calendar
  instant of the event month, 05-31 12:00, is not before the start, so the publish time
  should move to April and be clamped to 04-30 12:00. \<^verbatim>\<open>setMonth\<close> is applied while the
  day of the month is still 31: April 31 overflows to 05-01, the last day is then taken
  from May, and \<^verbatim>\<open>setDate(31)\<close> gives 05-31 12:00 again. The cap then makes it
  \<open>start - 30 min\<close>.
\<close>

theorem monthly_step_back_overflows:
  "monthlyPublishTime 0 monthEndAutomation 1780221600000 = 1780228800000 \<and>
   spec_monthlyPublishTime 0 monthEndAutomation 1780221600000 = 1777550400000 \<and>
   calculatePublishTime 0 1780221600000 (Some monthEndProfile) = Some 1780219800000"
proof -
  have c: "monthlyPublishTime 0 monthEndAutomation 1780221600000 = 1780228800000"
    by (simp add: monthlyPublishTime_def monthEndAutomation_def num_or_def may31 last_days may_newDate
        may_setMonth may1 may_setDate Let_def)
  have s: "spec_monthlyPublishTime 0 monthEndAutomation 1780221600000 = 1777550400000"
    by (simp add: spec_monthlyPublishTime_def monthEndAutomation_def may31 last_days may_newDate Let_def)
  have "rawPublishTime 0 monthEndAutomation 1780221600000 = 1780228800000"
    using c by (simp add: rawPublishTime_def monthEndAutomation_def)
  then have p: "calculatePublishTime 0 1780221600000 (Some monthEndProfile) = Some 1780219800000"
    by (simp add: calculatePublishTime_def monthEndProfile_def monthEndAutomation_def
        hardCap_def MIN_BUFFER_MS_def Let_def)
  show ?thesis using c s p by simp
qed

text \<open>A second slip of the same branch: \<^verbatim>\<open>monthlyHour || 12\<close> reads the hour 0 as
  missing, so a publish time of 00:30 becomes 12:30.\<close>

lemma midnight_hour_becomes_noon:
  "monthlyPublishTime 0 midnightAutomation 1781978400000 = 1781181000000 \<and>
   spec_monthlyPublishTime 0 midnightAutomation 1781978400000 = 1781137800000"
proof -
  have a: "getFullYear 0 1781978400000 = 2026" "getMonth 0 1781978400000 = 5"
    "lastDayOfMonth 0 2026 5 = 30"
    "newDate 0 2026 5 11 12 30 = 1781181000000" "newDate 0 2026 5 11 0 30 = 1781137800000"
    by code_simp+
  show ?thesis
    by (simp add: monthlyPublishTime_def spec_monthlyPublishTime_def midnightAutomation_def
        num_or_def a Let_def)
qed

subsection \<open>Restoring deleted events\<close>

lemma positionsWhere_empty: "positionsWhere P xs = [] \<longleftrightarrow> (\<forall>x \<in> set xs. \<not> P x)"
  by (auto simp: positionsWhere_def filter_empty_conv all_set_conv_all_nth)

lemma restoreFinish_not_failed: "fst (restoreFinish x) \<noteq> RestoreFailed msg"
  by (cases x) (auto simp: restoreFinish_def split: prod.splits)

lemma restoreWithProfile_not_failed:
  "fst (restoreWithProfile tz now g k prof dfp s) \<noteq> RestoreFailed msg"
  unfolding restoreWithProfile_def Let_def split_def
  by (simp add: restoreFinish_not_failed split: option.split)

text \<open>
  Claim C10. When the deleted pool holds no entry of the profile,
  \<^verbatim>\<open>restoreDeletedEvents\<close> returns \<^verbatim>\<open>{ ok: true, restoredCount: 0 }\<close> and the engine is
  unchanged, whether or not the profile exists. The failure "Profile not found" is
  returned only when the pool holds an entry of the profile, and then exactly when the
  profile is missing; the engine is unchanged there too.
\<close>

theorem restore_without_deleted_entries:
  "((\<forall>e \<in> set (deletedEvents s). \<not> (groupId e = g \<and> profileKey e = k)) \<longrightarrow>
      restoreDeletedEvents tz now g k s = (RestoreOk 0, s)) \<and>
   (restoreDeletedEvents tz now g k s = (RestoreFailed msg, s') \<longrightarrow>
      msg = ''Profile not found'' \<and> s' = s \<and> lookupProfile s g k = None \<and>
      (\<exists>e \<in> set (deletedEvents s). groupId e = g \<and> profileKey e = k)) \<and>
   ((\<exists>e \<in> set (deletedEvents s). groupId e = g \<and> profileKey e = k) \<and>
    lookupProfile s g k = None \<longrightarrow>
      restoreDeletedEvents tz now g k s = (RestoreFailed ''Profile not found'', s))"
proof (intro conjI)
  show "(\<forall>e \<in> set (deletedEvents s). \<not> (groupId e = g \<and> profileKey e = k)) \<longrightarrow>
      restoreDeletedEvents tz now g k s = (RestoreOk 0, s)"
    using positionsWhere_empty [of "ofProfile g k" "deletedEvents s"]
    by (simp add: restoreDeletedEvents_def ofProfile_def)
next
  show "restoreDeletedEvents tz now g k s = (RestoreFailed msg, s') \<longrightarrow>
      msg = ''Profile not found'' \<and> s' = s \<and> lookupProfile s g k = None \<and>
      (\<exists>e \<in> set (deletedEvents s). groupId e = g \<and> profileKey e = k)"
  proof
    assume a: "restoreDeletedEvents tz now g k s = (RestoreFailed msg, s')"
    have ne: "positionsWhere (ofProfile g k) (deletedEvents s) \<noteq> []"
      using a by (auto simp: restoreDeletedEvents_def)
    then have ex: "\<exists>e \<in> set (deletedEvents s). groupId e = g \<and> profileKey e = k"
      using positionsWhere_empty [of "ofProfile g k" "deletedEvents s"]
      by (auto simp: ofProfile_def)
    have "lookupProfile s g k = None \<and> msg = ''Profile not found'' \<and> s' = s"
    proof (cases "lookupProfile s g k")
      case None
      then show ?thesis using a ne by (simp add: restoreDeletedEvents_def)
    next
      case (Some prof)
      then have "restoreWithProfile tz now g k prof (positionsWhere (ofProfile g k) (deletedEvents s)) s
                 = (RestoreFailed msg, s')"
        using a ne by (simp add: restoreDeletedEvents_def)
      then show ?thesis
        using restoreWithProfile_not_failed
                [of tz now g k prof "positionsWhere (ofProfile g k) (deletedEvents s)" s msg]
        by simp
    qed
    then show "msg = ''Profile not found'' \<and> s' = s \<and> lookupProfile s g k = None \<and>
      (\<exists>e \<in> set (deletedEvents s). groupId e = g \<and> profileKey e = k)"
      using ex by simp
  qed
next
  show "(\<exists>e \<in> set (deletedEvents s). groupId e = g \<and> profileKey e = k) \<and>
    lookupProfile s g k = None \<longrightarrow>
      restoreDeletedEvents tz now g k s = (RestoreFailed ''Profile not found'', s)"
    using positionsWhere_empty [of "ofProfile g k" "deletedEvents s"]
    by (auto simp: restoreDeletedEvents_def ofProfile_def)
qed

theorem restore_without_deleted_entries_witness:
  "lookupProfile emptyEngine ''grp'' ''weekly'' = None \<and>
   restoreDeletedEvents 0 1000000 ''grp'' ''weekly'' emptyEngine = (RestoreOk 0, emptyEngine) \<and>
   restoreDeletedEvents 0 1000000 ''grp'' ''weekly'' orphanDeletedEngine =
     (RestoreFailed ''Profile not found'', orphanDeletedEngine)"
proof -
  have a: "lookupProfile emptyEngine ''grp'' ''weekly'' = None"
    "lookupProfile orphanDeletedEngine ''grp'' ''weekly'' = None"
    by (simp_all add: lookupProfile_def emptyEngine_def orphanDeletedEngine_def)
  have b: "\<forall>e \<in> set (deletedEvents emptyEngine). \<not> (groupId e = ''grp'' \<and> profileKey e = ''weekly'')"
    by (simp add: emptyEngine_def)
  have c: "\<exists>e \<in> set (deletedEvents orphanDeletedEngine). groupId e = ''grp'' \<and> profileKey e = ''weekly''"
    by (simp add: orphanDeletedEngine_def emptyEngine_def examplePending_def)
  note t1 = restore_without_deleted_entries [where s = emptyEngine and g = "''grp''"
      and k = "''weekly''" and tz = 0 and now = 1000000, THEN conjunct1, THEN mp, OF b]
  note t2 = restore_without_deleted_entries [where s = orphanDeletedEngine and g = "''grp''"
      and k = "''weekly''" and tz = 0 and now = 1000000, THEN conjunct2, THEN conjunct2,
      THEN mp, OF conjI [OF c a(2)]]
  show ?thesis using t1 t2 a(1) by simp
qed

subsection \<open>Anchor and pending records\<close>

lemma scheduleJob_future:
  "scheduledPublishTime (pendingEvents s ! i) = Some p \<Longrightarrow> now < p \<Longrightarrow>
     pendingEvents (scheduleJob now i s) = pendingEvents s \<and>
     deletedEvents (scheduleJob now i s) = deletedEvents s"
  by (simp add: scheduleJob_def setJob_def Let_def split: option.split)

lemma restoredEvent_publish:
  "scheduledPublishTime (restoredEvent g k ev r ra p) = Some p"
  by (simp add: restoredEvent_def Let_def)

lemma restoredEvent_fresh_start:
  "\<not> useOverrides ev r \<Longrightarrow> eventStartsAt (restoredEvent g k ev r ra p) = Some ra"
  by (simp add: restoredEvent_def Let_def)

lemma restoredEvent_kept_start:
  "useOverrides ev r \<Longrightarrow> eventStartsAt (restoredEvent g k ev r ra p) = eventStartsAt ev"
  by (auto simp: restoredEvent_def useOverrides_def Let_def)

lemma restoredEvent_kept_restore_start:
  "useOverrides ev r \<Longrightarrow> getRestoreStartMs (restoredEvent g k ev r ra p) = getRestoreStartMs ev"
  by (auto simp: restoredEvent_def useOverrides_def getRestoreStartMs_def
      getPendingSlotStartMs_def overrideStart_def Let_def)

lemma toISOString_whole:
  "toISOString r = Some ra \<Longrightarrow> r = rat_of_int \<lfloor>r\<rfloor> \<Longrightarrow> rat_of_int ra = r"
proof -
  assume a: "toISOString r = Some ra" and w: "r = rat_of_int \<lfloor>r\<rfloor>"
  have "\<lceil>r\<rceil> = \<lfloor>r\<rfloor>" by (subst w, subst (2) w) simp
  then have "ra = \<lfloor>r\<rfloor>" using a by (auto simp: toISOString_def split: if_splits)
  then show ?thesis using w by simp
qed

lemma restored_after_anchor:
  assumes r: "getRestoreStartMs ev = Some r" and w: "wholeRestoreStart ev"
    and a: "rat_of_int anchor < r" and t: "toISOString r = Some ra"
  shows "\<exists>d. eventStartsAt (restoredEvent g k ev r ra p) = Some d \<and> anchor < d"
proof (cases "useOverrides ev r")
  case True
  then obtain d where d: "eventStartsAt ev = Some d" "rat_of_int d = r"
    by (auto simp: useOverrides_def)
  then have "anchor < d" using a by simp
  then show ?thesis using True d by (simp add: restoredEvent_kept_start)
next
  case False
  have "r = rat_of_int \<lfloor>r\<rfloor>" using r w by (simp add: wholeRestoreStart_def)
  then have "rat_of_int ra = r" using t by (rule toISOString_whole [rotated])
  then have "anchor < ra" using a by simp
  then show ?thesis using False by (simp add: restoredEvent_fresh_start)
qed

lemma restoreLoop_step:
  "restoreLoop tz now g k prof mods pubs (Some (rat_of_int anchor)) (i # rest) (s, c, tr) = Inr res \<Longrightarrow>
     restoreLoop tz now g k prof mods pubs (Some (rat_of_int anchor)) rest (s, c, tr) = Inr res \<or>
     (\<exists>r ra p. getRestoreStartMs (deletedEvents s ! i) = Some r \<and> rat_of_int anchor < r \<and>
        toISOString r = Some ra \<and> now < p \<and>
        restoreLoop tz now g k prof mods pubs (Some (rat_of_int anchor)) rest
          (scheduleJob now (length (pendingEvents s))
             (s\<lparr>deletedEvents :=
                  (if useOverrides (deletedEvents s ! i) r
                   then (deletedEvents s)[i := restoredEvent g k (deletedEvents s ! i) r ra p]
                   else deletedEvents s),
                pendingEvents := pendingEvents s @ [restoredEvent g k (deletedEvents s ! i) r ra p]\<rparr>),
           c + 1, tr @ [i]) = Inr res)"
  by (auto simp: Let_def split: if_splits option.splits)

lemma list_all_update:
  "list_all P xs \<Longrightarrow> P x \<Longrightarrow> list_all P (xs[i := x])"
  using set_update_subset_insert [of xs i x] by (auto simp: list_all_iff)

lemma restoreLoop_after_anchor:
  "restoreLoop tz now g k prof mods pubs (Some (rat_of_int anchor)) ps (s, c, tr) = Inr (s', c', tr') \<Longrightarrow>
   list_all wholeRestoreStart (deletedEvents s) \<Longrightarrow>
   \<forall>i \<in> set ps. i < length (deletedEvents s) \<Longrightarrow>
   \<exists>new. pendingEvents s' = pendingEvents s @ new \<and>
         list_all (\<lambda>e. \<exists>d. eventStartsAt e = Some d \<and> anchor < d) new"
proof (induction ps arbitrary: s c tr)
  case Nil
  then show ?case by simp
next
  case (Cons i rest)
  from restoreLoop_step [OF Cons.prems(1)] show ?case
  proof
    assume "restoreLoop tz now g k prof mods pubs (Some (rat_of_int anchor)) rest (s, c, tr) = Inr (s', c', tr')"
    then show ?thesis using Cons.IH [of s c tr] Cons.prems(2,3) by simp
  next
    assume "\<exists>r ra p. getRestoreStartMs (deletedEvents s ! i) = Some r \<and> rat_of_int anchor < r \<and>
        toISOString r = Some ra \<and> now < p \<and>
        restoreLoop tz now g k prof mods pubs (Some (rat_of_int anchor)) rest
          (scheduleJob now (length (pendingEvents s))
             (s\<lparr>deletedEvents :=
                  (if useOverrides (deletedEvents s ! i) r
                   then (deletedEvents s)[i := restoredEvent g k (deletedEvents s ! i) r ra p]
                   else deletedEvents s),
                pendingEvents := pendingEvents s @ [restoredEvent g k (deletedEvents s ! i) r ra p]\<rparr>),
           c + 1, tr @ [i]) = Inr (s', c', tr')"
    then obtain r ra p where r: "getRestoreStartMs (deletedEvents s ! i) = Some r"
      and a: "rat_of_int anchor < r" and t: "toISOString r = Some ra" and p: "now < p"
      and rest: "restoreLoop tz now g k prof mods pubs (Some (rat_of_int anchor)) rest
          (scheduleJob now (length (pendingEvents s))
             (s\<lparr>deletedEvents :=
                  (if useOverrides (deletedEvents s ! i) r
                   then (deletedEvents s)[i := restoredEvent g k (deletedEvents s ! i) r ra p]
                   else deletedEvents s),
                pendingEvents := pendingEvents s @ [restoredEvent g k (deletedEvents s ! i) r ra p]\<rparr>),
           c + 1, tr @ [i]) = Inr (s', c', tr')"
      by blast
    define ev where "ev = deletedEvents s ! i"
    define re where "re = restoredEvent g k ev r ra p"
    define s1 where "s1 = s\<lparr>deletedEvents :=
                  (if useOverrides ev r then (deletedEvents s)[i := re] else deletedEvents s),
                pendingEvents := pendingEvents s @ [re]\<rparr>"
    define s2 where "s2 = scheduleJob now (length (pendingEvents s)) s1"
    have rest': "restoreLoop tz now g k prof mods pubs (Some (rat_of_int anchor)) rest
          (s2, c + 1, tr @ [i]) = Inr (s', c', tr')"
      using rest unfolding s2_def s1_def re_def ev_def .
    have pub: "scheduledPublishTime (pendingEvents s1 ! length (pendingEvents s)) = Some p"
      by (simp add: s1_def re_def restoredEvent_publish)
    have s2p: "pendingEvents s2 = pendingEvents s @ [re]"
      and s2d: "deletedEvents s2 =
                  (if useOverrides ev r then (deletedEvents s)[i := re] else deletedEvents s)"
      using scheduleJob_future [OF pub p] by (simp_all add: s2_def s1_def)
    have il: "i < length (deletedEvents s)" using Cons.prems(3) by simp
    have whole_ev: "wholeRestoreStart ev"
      using Cons.prems(2) il by (simp add: ev_def list_all_length)
    have whole_re: "useOverrides ev r \<Longrightarrow> wholeRestoreStart re"
    proof -
      assume u: "useOverrides ev r"
      show ?thesis using u whole_ev
        by (simp add: wholeRestoreStart_def re_def restoredEvent_kept_restore_start)
    qed
    have inv: "list_all wholeRestoreStart (deletedEvents s2)"
      unfolding s2d using Cons.prems(2) whole_re by (simp add: list_all_update)
    have rng: "\<forall>i \<in> set rest. i < length (deletedEvents s2)"
      unfolding s2d using Cons.prems(3) by simp
    from Cons.IH [OF rest' inv rng] obtain new where
      n1: "pendingEvents s' = pendingEvents s2 @ new"
      and n2: "list_all (\<lambda>e. \<exists>d. eventStartsAt e = Some d \<and> anchor < d) new"
      by blast
    have "\<exists>d. eventStartsAt re = Some d \<and> anchor < d"
      unfolding re_def using whole_ev r a t by (intro restored_after_anchor) (simp_all add: ev_def)
    then show ?thesis using n1 n2 s2p by simp
  qed
qed

lemma restoreFinish_pending:
  "restoreFinish x = (RestoreOk n, s') \<Longrightarrow>
     \<exists>s3 tr. x = Inr (s3, n, tr) \<and> pendingEvents s' = pendingEvents s3"
  by (auto simp: restoreFinish_def savePendingEvents_def emit_def split: sum.splits)

lemma restoreDeletedEvents_after_anchor:
  assumes st: "automationState s (getProfileStateKey g k) = Some ps"
    and an: "activationStartsAt ps = Some anchor"
    and w: "list_all wholeRestoreStart (deletedEvents s)"
    and r: "restoreDeletedEvents tz now g k s = (RestoreOk n, s')"
  shows "\<exists>new. pendingEvents s' = pendingEvents s @ new \<and>
           list_all (\<lambda>e. \<exists>d. eventStartsAt e = Some d \<and> anchor < d) new"
proof (cases "positionsWhere (ofProfile g k) (deletedEvents s) = []")
  case True
  then have "s' = s" using r by (simp add: restoreDeletedEvents_def)
  then show ?thesis by simp
next
  case False
  define dfp where "dfp = positionsWhere (ofProfile g k) (deletedEvents s)"
  have rng: "\<forall>i \<in> set dfp. i < length (deletedEvents s)"
    by (simp add: dfp_def positionsWhere_def)
  from False r obtain prof where rw: "restoreWithProfile tz now g k prof dfp s = (RestoreOk n, s')"
    by (auto simp: restoreDeletedEvents_def dfp_def Let_def split: option.splits)
  have gs: "getOrCreateProfileState (getProfileStateKey g k) s = (ps, s)"
    using st by (simp add: getOrCreateProfileState_def)
  obtain mods pubs where
    "restoreFinish (restoreLoop tz now g k prof mods pubs (Some (rat_of_int anchor)) dfp (s, 0, []))
       = (RestoreOk n, s')"
    using rw gs an by (simp add: restoreWithProfile_def getActivationStartMs_def Let_def)
  then obtain s3 tr where
    "restoreLoop tz now g k prof mods pubs (Some (rat_of_int anchor)) dfp (s, 0, []) = Inr (s3, n, tr)"
    and p: "pendingEvents s' = pendingEvents s3"
    using restoreFinish_pending by blast
  from restoreLoop_after_anchor [OF this(1) w rng] p show ?thesis by simp
qed

lemma example_restore_start:
  "parsePendingEventIdStartMs (Some pid) = Some (rat_of_int start) \<Longrightarrow>
     getRestoreStartMs (examplePending pid g k start pub st) = Some (rat_of_int start)"
  by (simp add: getRestoreStartMs_def getPendingSlotStartMs_def examplePending_def nullish_def
      overrideStart_def Let_def)

lemma example_no_overrides: "\<not> useOverrides (examplePending pid g k start pub st) r"
  by (simp add: useOverrides_def hasOverrides_def examplePending_def)

lemma restorable_tokens:
  "parsePendingEventIdStartMs (Some ''pending_grp_weekly_1000'') = Some (rat_of_int 1000)"
  "parsePendingEventIdStartMs (Some ''pending_grp_weekly_605800000'') = Some (rat_of_int 605800000)"
proof -
  have v: "signedIntegerValue ''1000'' = 1000" "signedIntegerValue ''605800000'' = 605800000"
    by (simp_all add: signedIntegerValue_def natOfDigits_def digitVal_def)
  have i: "isSignedInteger ''1000''" "isSignedInteger ''605800000''"
    by (simp_all add: isSignedInteger_def isDigit_def)
  have b: "\<bar>signedIntegerValue ''1000''\<bar> \<le> 2 ^ 53"
    "\<bar>signedIntegerValue ''605800000''\<bar> \<le> 2 ^ 53"
    unfolding v by simp_all
  show "parsePendingEventIdStartMs (Some ''pending_grp_weekly_1000'') = Some (rat_of_int 1000)"
    using parse_integer_token [OF i(1) b(1), of "''pending_grp_weekly''"] v by simp
  show "parsePendingEventIdStartMs (Some ''pending_grp_weekly_605800000'') = Some (rat_of_int 605800000)"
    using parse_integer_token [OF i(2) b(2), of "''pending_grp_weekly''"] v by simp
qed

lemma restorable_starts:
  "getRestoreStartMs (examplePending ''pending_grp_weekly_1000'' g k 1000 pub st) = Some 1000"
  "getRestoreStartMs (examplePending ''pending_grp_weekly_605800000'' g k 605800000 pub st) = Some 605800000"
  using example_restore_start [OF restorable_tokens(1)] example_restore_start [OF restorable_tokens(2)]
  by simp_all

lemma restorable_whole: "list_all wholeRestoreStart (deletedEvents restorableEngine)"
  by (simp add: restorableEngine_def wholeRestoreStart_def restorable_starts)

lemma restorable_positions:
  "positionsWhere (ofProfile ''grp'' ''weekly'') (deletedEvents restorableEngine) = [0, 1]"
  by (simp add: restorableEngine_def positionsWhere_def ofProfile_def examplePending_def)


lemma weekly_publish: "calculatePublishTime 0 605800000 (Some weeklyProfile) = Some 346600000"
  by (simp add: calculatePublishTime_def weeklyProfile_def threeDaysBefore_def rawPublishTime_def
      offsetMs_def num_or_def hardCap_def MIN_BUFFER_MS_def Let_def)

lemma restorable_run:
  "fst (restoreDeletedEvents 0 500 ''grp'' ''weekly'' restorableEngine) = RestoreOk 1 \<and>
   map eventStartsAt (pendingEvents (snd (restoreDeletedEvents 0 500 ''grp'' ''weekly'' restorableEngine)))
     = [Some 605800000]"
proof -
  define ev1 where "ev1 = examplePending ''pending_grp_weekly_1000'' ''grp'' ''weekly'' 1000 400 ''deleted''"
  define ev2 where "ev2 = examplePending ''pending_grp_weekly_605800000'' ''grp'' ''weekly'' 605800000
             346600000 ''deleted''"
  define re where "re = restoredEvent ''grp'' ''weekly'' ev2 605800000 605800000 346600000"
  have d: "deletedEvents restorableEngine = [ev1, ev2]"
    by (simp add: restorableEngine_def ev1_def ev2_def)
  have pe: "pendingEvents restorableEngine = []"
    by (simp add: restorableEngine_def anchoredEngine_def emptyEngine_def)
  have g: "getRestoreStartMs ev1 = Some 1000" "getRestoreStartMs ev2 = Some 605800000"
    by (simp_all add: ev1_def ev2_def restorable_starts)
  have u: "\<not> useOverrides ev2 605800000" by (simp add: ev2_def example_no_overrides)
  have iso: "toISOString 605800000 = Some 605800000" by (simp add: toISOString_def)
  define s1 where "s1 = restorableEngine\<lparr>deletedEvents := [ev1, ev2], pendingEvents := [re]\<rparr>"
  define dfp where "dfp = [0, 1::nat]"
  have loop: "restoreLoop 0 500 ''grp'' ''weekly'' weeklyProfile [] [] (Some 1000) dfp
                (restorableEngine, 0, []) = Inr (scheduleJob 500 0 s1, 1, [1])"
    by (simp add: dfp_def d pe g u iso weekly_publish Let_def s1_def re_def list_ex_iff)
  have pub: "scheduledPublishTime (pendingEvents s1 ! 0) = Some 346600000"
    by (simp add: s1_def re_def restoredEvent_publish)
  have sj: "pendingEvents (scheduleJob 500 0 s1) = [re]"
    using scheduleJob_future [OF pub, of 500] by (simp add: s1_def)
  have st: "eventStartsAt re = Some 605800000"
    using u by (simp add: re_def restoredEvent_fresh_start)
  have prof: "lookupProfile restorableEngine ''grp'' ''weekly'' = Some weeklyProfile"
    by (simp add: lookupProfile_def restorableEngine_def)
  have ps: "getOrCreateProfileState (getProfileStateKey ''grp'' ''weekly'') restorableEngine =
      (\<lparr>eventsCreated = 1, activationStartsAt = Some 1000, lastSuccess = None, lastEventId = None\<rparr>,
       restorableEngine)"
    by (simp add: getOrCreateProfileState_def getProfileStateKey_def restorableEngine_def
        anchoredEngine_def)
  have rw: "restoreWithProfile 0 500 ''grp'' ''weekly'' weeklyProfile dfp restorableEngine =
      restoreFinish (Inr (scheduleJob 500 0 s1, 1, [1]))"
    by (simp add: restoreWithProfile_def ps pe getActivationStartMs_def slotKeysWhere_def Let_def
        loop)
  have "restoreDeletedEvents 0 500 ''grp'' ''weekly'' restorableEngine =
      restoreFinish (Inr (scheduleJob 500 0 s1, 1, [1]))"
    using rw by (simp add: restoreDeletedEvents_def restorable_positions prof dfp_def)
  then show ?thesis
    by (simp add: restoreFinish_def savePendingEvents_def emit_def sj st)
qed

text \<open>
  Claim C2, as the code has it. The two operations that materialize slots never make a
  record at or before the anchor. Called with the anchor as \<^verbatim>\<open>minEventStartMs\<close>,
  \<^verbatim>\<open>calculatePendingEvents\<close> returns only records whose start is strictly after it. For a
  profile whose state holds an anchor, \<^verbatim>\<open>restoreDeletedEvents\<close> leaves the pending records
  it finds in place and appends only records whose start is strictly after the anchor,
  provided the slot start of every deleted record is a whole number of milliseconds.
\<close>

theorem generated_after_anchor:
  "(calculatePendingEvents tz now dateOptions g k profOpt maxEvents (Some (rat_of_int anchor)) s
      = (Some out, s') \<longrightarrow>
    (\<forall>e \<in> set out. \<exists>d. eventStartsAt e = Some d \<and> anchor < d)) \<and>
   (automationState t (getProfileStateKey g k) = Some ps \<and> activationStartsAt ps = Some anchor \<and>
    list_all wholeRestoreStart (deletedEvents t) \<and>
    restoreDeletedEvents tz now g k t = (RestoreOk n, t') \<longrightarrow>
    take (length (pendingEvents t)) (pendingEvents t') = pendingEvents t \<and>
    (\<forall>e \<in> set (drop (length (pendingEvents t)) (pendingEvents t')).
       \<exists>d. eventStartsAt e = Some d \<and> anchor < d))"
proof (rule conjI)
  show "calculatePendingEvents tz now dateOptions g k profOpt maxEvents (Some (rat_of_int anchor)) s
      = (Some out, s') \<longrightarrow>
    (\<forall>e \<in> set out. \<exists>d. eventStartsAt e = Some d \<and> anchor < d)"
  proof
    assume "calculatePendingEvents tz now dateOptions g k profOpt maxEvents (Some (rat_of_int anchor)) s
       = (Some out, s')"
    then have "list_all (expansionRecord now g k (Some (rat_of_int anchor))) out"
      by (rule calculatePendingEvents_records)
    then show "\<forall>e \<in> set out. \<exists>d. eventStartsAt e = Some d \<and> anchor < d"
      using expansionRecord_after by (fastforce simp: list_all_iff)
  qed
next
  show "automationState t (getProfileStateKey g k) = Some ps \<and> activationStartsAt ps = Some anchor \<and>
    list_all wholeRestoreStart (deletedEvents t) \<and>
    restoreDeletedEvents tz now g k t = (RestoreOk n, t') \<longrightarrow>
    take (length (pendingEvents t)) (pendingEvents t') = pendingEvents t \<and>
    (\<forall>e \<in> set (drop (length (pendingEvents t)) (pendingEvents t')).
       \<exists>d. eventStartsAt e = Some d \<and> anchor < d)"
  proof
    assume h: "automationState t (getProfileStateKey g k) = Some ps \<and> activationStartsAt ps = Some anchor \<and>
      list_all wholeRestoreStart (deletedEvents t) \<and>
      restoreDeletedEvents tz now g k t = (RestoreOk n, t')"
    then obtain new where "pendingEvents t' = pendingEvents t @ new"
      and "list_all (\<lambda>e. \<exists>d. eventStartsAt e = Some d \<and> anchor < d) new"
      using restoreDeletedEvents_after_anchor [of t g k ps anchor tz now n t'] by blast
    then show "take (length (pendingEvents t)) (pendingEvents t') = pendingEvents t \<and>
      (\<forall>e \<in> set (drop (length (pendingEvents t)) (pendingEvents t')).
         \<exists>d. eventStartsAt e = Some d \<and> anchor < d)"
      by (simp add: list_all_iff)
  qed
qed

theorem generated_after_anchor_witness:
  "calculatePendingEvents 0 1779000000000 [1780221600000, 1780826400000] ''grp'' ''weekly''
       (Some weeklyProfile) 10 (Some (rat_of_int 1780221600000)) emptyEngine =
     (Some [newPendingEvent ''grp'' ''weekly'' 1780826400000 1780567200000],
      emptyEngine\<lparr>automationState := [''grp::weekly'' \<mapsto> freshProfileState]\<rparr>) \<and>
   eventStartsAt (newPendingEvent ''grp'' ''weekly'' 1780826400000 1780567200000) =
     Some 1780826400000 \<and>
   (1780221600000::int) < 1780826400000 \<and>
   anchorOf restorableEngine ''grp'' ''weekly'' = Some 1000 \<and>
   list_all wholeRestoreStart (deletedEvents restorableEngine) \<and>
   fst (restoreDeletedEvents 0 500 ''grp'' ''weekly'' restorableEngine) = RestoreOk 1 \<and>
   pendingEvents restorableEngine = [] \<and>
   map eventStartsAt (pendingEvents (snd (restoreDeletedEvents 0 500 ''grp'' ''weekly'' restorableEngine)))
     = [Some 605800000] \<and>
   (1000::int) < 605800000"
proof -
  have b: "calculatePendingEvents 0 1779000000000 [1780221600000, 1780826400000] ''grp'' ''weekly''
       (Some weeklyProfile) 10 (Some (rat_of_int 1780221600000)) emptyEngine =
     (Some [newPendingEvent ''grp'' ''weekly'' 1780826400000 1780567200000],
      emptyEngine\<lparr>automationState := [''grp::weekly'' \<mapsto> freshProfileState]\<rparr>)"
    by (simp add: calculatePendingEvents_def weeklyProfile_def threeDaysBefore_def
        getOrCreateProfileState_def getProfileStateKey_def emptyEngine_def
        slotPublishTime_def offsetMs_def num_or_def hardCap_def MIN_BUFFER_MS_def Let_def
        freshProfileState_def)
  note t1 = generated_after_anchor [where tz = 0 and now = 1779000000000
      and dateOptions = "[1780221600000, 1780826400000]"
      and g = "''grp''" and k = "''weekly''" and profOpt = "Some weeklyProfile"
      and maxEvents = 10 and anchor = 1780221600000 and s = emptyEngine
      and out = "[newPendingEvent ''grp'' ''weekly'' 1780826400000 1780567200000]"
      and s' = "emptyEngine\<lparr>automationState := [''grp::weekly'' \<mapsto> freshProfileState]\<rparr>",
      THEN conjunct1, THEN mp, OF b]
  define ps where "ps = \<lparr>eventsCreated = 1, activationStartsAt = Some 1000,
                          lastSuccess = None, lastEventId = None\<rparr>"
  have st: "automationState restorableEngine (getProfileStateKey ''grp'' ''weekly'') = Some ps"
    by (simp add: restorableEngine_def anchoredEngine_def getProfileStateKey_def ps_def)
  have an: "activationStartsAt ps = Some 1000" by (simp add: ps_def)
  have ao: "anchorOf restorableEngine ''grp'' ''weekly'' = Some 1000"
    by (simp add: anchorOf_def st an getActivationStartMs_def)
  have pe: "pendingEvents restorableEngine = []"
    by (simp add: restorableEngine_def anchoredEngine_def emptyEngine_def)
  have run: "restoreDeletedEvents 0 500 ''grp'' ''weekly'' restorableEngine =
      (RestoreOk 1, snd (restoreDeletedEvents 0 500 ''grp'' ''weekly'' restorableEngine))"
    using restorable_run [THEN conjunct1] by (simp add: prod_eq_iff)
  note t2 = generated_after_anchor [where t = restorableEngine and tz = 0 and now = 500
      and g = "''grp''" and k = "''weekly''" and ps = ps and anchor = 1000 and n = 1
      and t' = "snd (restoreDeletedEvents 0 500 ''grp'' ''weekly'' restorableEngine)",
      THEN conjunct2, THEN mp, OF conjI [OF st conjI [OF an conjI [OF restorable_whole run]]]]
  show ?thesis
    using t1 t2 b ao pe restorable_whole restorable_run by (auto simp: newPendingEvent_def Let_def)
qed

text \<open>
  Claim C2 as stated, for every pending record in every reachable state and for a
  successful publish in particular, fails: with no anchor, a successful publish sets the
  anchor to the start of the published record, which stays in the pending store with a
  start equal to the anchor.
\<close>

theorem publish_sets_anchor_counterexample:
  "anchorOf unanchoredEngine ''grp'' ''weekly'' = None \<and>
   (let s' = executeAutomatedPostInternal_done 15000000 0 (PublishOk (Some ''grpevt_1'')) unanchoredEngine
    in anchorOf s' ''grp'' ''weekly'' = Some 20000000 \<and>
       status (pendingEvents s' ! 0) = ''published'' \<and>
       groupId (pendingEvents s' ! 0) = ''grp'' \<and> profileKey (pendingEvents s' ! 0) = ''weekly'' \<and>
       eventStartsAt (pendingEvents s' ! 0) = Some 20000000 \<and>
       \<not> (20000000 > (20000000::int)))"
proof -
  have pe: "pendingEvents unanchoredEngine =
      [examplePending ''pending_grp_weekly_20000000'' ''grp'' ''weekly'' 20000000 10000000 ''scheduled'']"
    "automationState unanchoredEngine = Map.empty"
    by (simp_all add: unanchoredEngine_def emptyEngine_def)
  have a: "anchorOf unanchoredEngine ''grp'' ''weekly'' = None"
    by (simp add: anchorOf_def pe)
  have b: "let s' = executeAutomatedPostInternal_done 15000000 0 (PublishOk (Some ''grpevt_1'')) unanchoredEngine
    in anchorOf s' ''grp'' ''weekly'' = Some 20000000 \<and>
       status (pendingEvents s' ! 0) = ''published'' \<and>
       groupId (pendingEvents s' ! 0) = ''grp'' \<and> profileKey (pendingEvents s' ! 0) = ''weekly'' \<and>
       eventStartsAt (pendingEvents s' ! 0) = Some 20000000"
    by (simp add: executeAutomatedPostInternal_done_def pe examplePending_def anchorOf_def
        recordEventCreation_def setRate_def modifyPending_def getOrCreateProfileState_def
        putProfileState_def getProfileStateKey_def getActivationStartMs_def freshProfileState_def
        saveAutomationState_def savePendingEvents_def emit_def Let_def)
  show ?thesis using a b by (simp add: Let_def)
qed

subsection \<open>Reconciliation against the remote calendar\<close>

lemma map_filter_identity: "(\<forall>x \<in> set xs. f x = Some x) \<Longrightarrow> List.map_filter f xs = xs"
  by (induction xs) (simp_all add: List.map_filter_simps)

lemma set_map_filter: "set (List.map_filter f xs) = {y. \<exists>x \<in> set xs. f x = Some y}"
  by (induction xs) (auto simp: List.map_filter_simps split: option.splits)

lemma map_filter_keeps_distinct:
  "(\<And>x y. f x = Some y \<Longrightarrow> h y = h x) \<Longrightarrow> distinct (map h xs) \<Longrightarrow>
   distinct (map h (List.map_filter f xs))"
proof (induction xs)
  case Nil
  then show ?case by (simp add: List.map_filter_simps)
next
  case (Cons x xs)
  have sub: "h ` set (List.map_filter f xs) \<subseteq> h ` set xs"
    using Cons.prems(1) by (auto simp: set_map_filter)
  show ?case
  proof (cases "f x")
    case None
    then show ?thesis using Cons by (simp add: List.map_filter_simps)
  next
    case (Some y)
    then have "h y = h x" using Cons.prems(1) by simp
    then have "h y \<notin> h ` set (List.map_filter f xs)" using sub Cons.prems(2) by auto
    then show ?thesis using Some Cons by (simp add: List.map_filter_simps)
  qed
qed

lemma findIndex_distinct:
  "distinct (map h xs) \<Longrightarrow> e \<in> set xs \<Longrightarrow>
   \<exists>i. findIndex (\<lambda>x. h x = h e) xs = Some i \<and> xs ! i = e"
proof (induction xs)
  case Nil
  then show ?case by simp
next
  case (Cons x xs)
  show ?case
  proof (cases "x = e")
    case True
    then show ?thesis by simp
  next
    case False
    then have in_xs: "e \<in> set xs" using Cons.prems(2) by simp
    then have "h x \<noteq> h e" using Cons.prems(1) by auto
    moreover obtain i where "findIndex (\<lambda>x. h x = h e) xs = Some i \<and> xs ! i = e"
      using Cons.IH Cons.prems(1) in_xs by auto
    ultimately show ?thesis by simp
  qed
qed

lemma reconcileOne_shape:
  "reconcileOne s g up e = (Some e', b) \<Longrightarrow> e' = e \<or> (\<exists>x. e' = e\<lparr>eventId := x\<rparr>)"
  by (auto simp: reconcileOne_def Let_def split: if_splits option.splits)

lemma hd_filter_mem: "filter P xs \<noteq> [] \<Longrightarrow> hd (filter P xs) \<in> set xs"
  using hd_in_set [of "filter P xs"] by auto

lemma upcomingIds_mem: "u \<in> set up \<Longrightarrow> truthy (u_id u) \<Longrightarrow> the (u_id u) \<in> upcomingIds up"
  by (auto simp: upcomingIds_def)

lemma or_else_None: "or_else a None = (if truthy a then a else None)"
  by (simp add: or_else_def)

text \<open>The title that resolveEventDetails finds for a record of the list when ids are distinct.\<close>

lemma resolve_distinct:
  assumes "distinct (map id (pendingEvents s))" "e \<in> set (pendingEvents s)"
  shows "resolveEventDetails (id e) s = detailsFor s e"
proof -
  obtain i where "findIndex (\<lambda>x. id x = id e) (pendingEvents s) = Some i \<and> pendingEvents s ! i = e"
    using findIndex_distinct [OF assms] by auto
  then show ?thesis by (simp add: resolveEventDetails_def findPending_def)
qed

lemma detailsFor_title_eventId:
  "profilesRef s' = profilesRef s \<Longrightarrow>
   map_option d_title (detailsFor s' (e\<lparr>eventId := x\<rparr>)) = map_option d_title (detailsFor s e)"
  by (simp add: detailsFor_def lookupProfile_def Let_def split: option.splits)

lemma reconcileOne_stable:
  assumes mem: "e \<in> set (pendingEvents s)"
    and out: "reconcileOne s g up e = (Some e', b)"
    and H: "(\<forall>u \<in> set up. truthy (u_id u)) \<or> distinct (map id (pendingEvents s))"
    and pe: "pendingEvents s' = List.map_filter (\<lambda>x. fst (reconcileOne s g up x)) (pendingEvents s)"
    and pr: "profilesRef s' = profilesRef s"
  shows "reconcileOne s' g up e' = (Some e', False)"
proof (cases "groupId e \<noteq> g \<or> status e \<noteq> ''published''")
  case True
  then have "e' = e" using out by (auto simp: reconcileOne_def)
  then show ?thesis using True by (auto simp: reconcileOne_def)
next
  case pub: False
  show ?thesis
  proof (cases "truthy (eventId e)")
    case True
    then have "e' = e" "the (eventId e) \<in> upcomingIds up"
      using out pub by (auto simp: reconcileOne_def split: if_splits)
    then show ?thesis using True pub by (auto simp: reconcileOne_def)
  next
    case noid: False
    show ?thesis
    proof (cases "eventStartsAt e")
      case None
      then have "e' = e" using out pub noid by (auto simp: reconcileOne_def)
      then show ?thesis using None pub noid by (auto simp: reconcileOne_def)
    next
      case (Some startKey)
      let ?cands = "filter (\<lambda>u. upcomingStart u = Some startKey) up"
      have ne: "?cands \<noteq> []"
        using out pub noid Some by (auto simp: reconcileOne_def Let_def split: if_splits)
      show ?thesis
      proof (cases "length ?cands = 1")
        case True
        let ?newId = "or_else (u_id (hd ?cands)) None"
        have e': "e' = e\<lparr>eventId := ?newId\<rparr>"
          using out pub noid Some ne True by (auto simp: reconcileOne_def Let_def)
        show ?thesis
        proof (cases "truthy (u_id (hd ?cands))")
          case t: True
          then have "the ?newId \<in> upcomingIds up" "truthy ?newId"
            using hd_filter_mem [OF ne] upcomingIds_mem by (auto simp: or_else_def)
          then show ?thesis using e' pub by (auto simp: reconcileOne_def)
        next
          case f: False
          then have n: "?newId = None" by (simp add: or_else_def)
          show ?thesis using e' n pub Some ne True f
            by (auto simp: reconcileOne_def Let_def truthy_def or_else_def)
        qed
      next
        case many: False
        obtain resolved where res: "resolveEventDetails (id e) s = Some resolved"
          using out pub noid Some ne many
          by (auto simp: reconcileOne_def Let_def split: if_splits option.splits)
        let ?matching = "filter (\<lambda>c. u_title c = Some (d_title resolved)) ?cands"
        let ?newId = "or_else (u_id (hd ?matching)) None"
        have m: "d_title resolved \<noteq> []" "length ?matching = 1"
          using out pub noid Some ne many res
          by (auto simp: reconcileOne_def Let_def split: if_splits)
        have e': "e' = e\<lparr>eventId := ?newId\<rparr>"
          using out pub noid Some ne many res m by (auto simp: reconcileOne_def Let_def)
        have mne: "?matching \<noteq> []" using m(2) by auto
        have hm: "hd ?matching \<in> set up"
          using hd_filter_mem [OF mne] by auto
        show ?thesis
        proof (cases "truthy (u_id (hd ?matching))")
          case t: True
          then have "the ?newId \<in> upcomingIds up" "truthy ?newId"
            using hm upcomingIds_mem by (auto simp: or_else_def)
          then show ?thesis using e' pub by (auto simp: reconcileOne_def)
        next
          case f: False
          then have n: "?newId = None" by (simp add: or_else_def)
          have d: "distinct (map id (pendingEvents s))" using H f hm by auto
          have same_id: "id y = id x" if "fst (reconcileOne s g up x) = Some y" for x y
          proof -
            have "reconcileOne s g up x = (Some y, snd (reconcileOne s g up x))"
              using that by (simp add: prod_eq_iff)
            then have "y = x \<or> (\<exists>v. y = x\<lparr>eventId := v\<rparr>)" by (rule reconcileOne_shape)
            then show ?thesis by auto
          qed
          have d': "distinct (map id (pendingEvents s'))"
            unfolding pe using map_filter_keeps_distinct [OF same_id d] by simp
          have mem': "e' \<in> set (pendingEvents s')"
            unfolding pe using mem out by (auto simp: set_map_filter intro!: bexI [of _ e])
          have a1: "resolveEventDetails (id e') s' = detailsFor s' e'"
            using resolve_distinct [OF d' mem'] .
          have a2: "detailsFor s e = Some resolved"
            using resolve_distinct [OF d mem] res by simp
          have "map_option d_title (detailsFor s' e') = map_option d_title (detailsFor s e)"
            unfolding e' by (rule detailsFor_title_eventId [OF pr])
          then have "map_option d_title (detailsFor s' e') = Some (d_title resolved)"
            unfolding a2 by simp
          then obtain resolved' where "detailsFor s' e' = Some resolved'"
            "d_title resolved' = d_title resolved" by auto
          then have r': "resolveEventDetails (id e') s' = Some resolved'"
            "d_title resolved' = d_title resolved" using a1 by simp_all
          show ?thesis using e' n pub Some ne many f r' m
            by (auto simp: reconcileOne_def Let_def truthy_def or_else_def)
        qed
      qed
    qed
  qed
qed

lemma map_filter_of_map: "List.map_filter g (map f xs) = List.map_filter (\<lambda>x. g (f x)) xs"
  by (induction xs) (simp_all add: List.map_filter_simps split: option.splits)

lemma first_call_store:
  "g \<noteq> [] \<Longrightarrow>
   pendingEvents (snd (reconcilePublishedEvents g up s)) =
     List.map_filter (\<lambda>x. fst (reconcileOne s g up x)) (pendingEvents s) \<and>
   profilesRef (snd (reconcilePublishedEvents g up s)) = profilesRef s"
  by (simp add: reconcilePublishedEvents_def Let_def map_filter_of_map savePendingEvents_def
      emit_def)

lemma second_call_outcomes:
  assumes "g \<noteq> []"
    and "(\<forall>u \<in> set up. truthy (u_id u)) \<or> distinct (map id (pendingEvents s))"
    and "e' \<in> set (pendingEvents (snd (reconcilePublishedEvents g up s)))"
  shows "reconcileOne (snd (reconcilePublishedEvents g up s)) g up e' = (Some e', False)"
proof -
  let ?s1 = "snd (reconcilePublishedEvents g up s)"
  note st = first_call_store [OF assms(1), of up s]
  obtain e where e: "e \<in> set (pendingEvents s)" "fst (reconcileOne s g up e) = Some e'"
    using assms(3) st by (auto simp: set_map_filter)
  then have "reconcileOne s g up e = (Some e', snd (reconcileOne s g up e))"
    by (simp add: prod_eq_iff)
  then show ?thesis
    using reconcileOne_stable [OF e(1) _ assms(2)] st by blast
qed

text \<open>
  Claim C8. A second call of \<^verbatim>\<open>reconcilePublishedEvents\<close> with the same list changes
  nothing: it removes no record, assigns no event id, reports \<^verbatim>\<open>removed = 0\<close> and
  \<^verbatim>\<open>updated = 0\<close> and leaves the whole engine as the first call left it. This holds for
  every store whose pending records have pairwise distinct ids, as the stores of the
  engine have (on load \<^verbatim>\<open>normalizePendingStore\<close> keeps one record per slot key, after
  which the id of a record is its slot key), and also whenever every remote event carries
  an id.
\<close>

theorem reconcile_idempotent:
  "(\<forall>u \<in> set up. truthy (u_id u)) \<or> distinct (map id (pendingEvents s)) \<longrightarrow>
   reconcilePublishedEvents g up (snd (reconcilePublishedEvents g up s)) =
     (if g = [] then ReconcileFailed ''Missing groupId'' else ReconcileOk 0 0,
      snd (reconcilePublishedEvents g up s))"
proof
  assume H: "(\<forall>u \<in> set up. truthy (u_id u)) \<or> distinct (map id (pendingEvents s))"
  let ?s1 = "snd (reconcilePublishedEvents g up s)"
  show "reconcilePublishedEvents g up ?s1 =
     (if g = [] then ReconcileFailed ''Missing groupId'' else ReconcileOk 0 0, ?s1)"
  proof (cases "g = []")
    case True
    then show ?thesis by (simp add: reconcilePublishedEvents_def)
  next
    case False
    have all: "\<forall>e' \<in> set (pendingEvents ?s1). reconcileOne ?s1 g up e' = (Some e', False)"
      using second_call_outcomes [OF False H] by blast
    then have m: "map (reconcileOne ?s1 g up) (pendingEvents ?s1) =
                  map (\<lambda>e'. (Some e', False)) (pendingEvents ?s1)"
      by (simp cong: map_cong)
    have k: "List.map_filter fst (map (\<lambda>e'. (Some e', False)) (pendingEvents ?s1)) = pendingEvents ?s1"
      by (simp add: map_filter_of_map map_filter_identity)
    have r: "filter (\<lambda>r. fst r = None) (map (\<lambda>e'. (Some e', False)) (pendingEvents ?s1)) = []"
      "filter snd (map (\<lambda>e'. (Some e', False)) (pendingEvents ?s1)) = []"
      by (simp_all add: filter_empty_conv)
    have "reconcilePublishedEvents g up ?s1 = (ReconcileOk 0 0, ?s1\<lparr>pendingEvents := pendingEvents ?s1\<rparr>)"
      using False unfolding reconcilePublishedEvents_def [of g up ?s1] Let_def m k r by simp
    then show ?thesis using False by simp
  qed
qed

theorem reconcile_idempotent_witness:
  "distinct (map id (pendingEvents pairEngine)) \<and>
   fst (reconcilePublishedEvents ''grp'' pairUpcoming pairEngine) = ReconcileOk 1 1 \<and>
   map eventId (pendingEvents (snd (reconcilePublishedEvents ''grp'' pairUpcoming pairEngine))) =
     [Some ''grpevt_1''] \<and>
   reconcilePublishedEvents ''grp'' pairUpcoming
       (snd (reconcilePublishedEvents ''grp'' pairUpcoming pairEngine)) =
     (ReconcileOk 0 0, snd (reconcilePublishedEvents ''grp'' pairUpcoming pairEngine))"
proof -
  define A where "A = (examplePending ''slot_1'' ''grp'' ''quiz'' 40000000 30000000 ''published'')
             \<lparr>eventId := Some ''grpevt_old''\<rparr>"
  define B where "B = examplePending ''slot_2'' ''grp'' ''quiz'' 50000000 30000000 ''published''"
  have pe: "pendingEvents pairEngine = [A, B]"
    by (simp add: pairEngine_def emptyEngine_def A_def B_def)
  have refs: "profilesRef pairEngine = Some [''grp'' \<mapsto> [''quiz'' \<mapsto> twinProfile ''Quiz night'']]"
    by (simp add: pairEngine_def emptyEngine_def)
  have fA: "id A = ''slot_1''" "groupId A = ''grp''" "profileKey A = ''quiz''"
    "status A = ''published''" "eventId A = Some ''grpevt_old''" "manualOverrides A = None"
    by (simp_all add: A_def examplePending_def)
  have fB: "id B = ''slot_2''" "groupId B = ''grp''" "profileKey B = ''quiz''"
    "status B = ''published''" "eventId B = None" "eventStartsAt B = Some 50000000"
    "manualOverrides B = None"
    by (simp_all add: B_def examplePending_def)
  have d: "distinct (map id (pendingEvents pairEngine))"
    by (simp add: pe fA fB)
  have ids: "upcomingIds pairUpcoming = {''grpevt_1'', ''grpevt_2''}"
    by (auto simp: upcomingIds_def pairUpcoming_def truthy_def)
  have cands: "filter (\<lambda>u. upcomingStart u = Some 50000000) pairUpcoming = pairUpcoming"
    by (simp add: pairUpcoming_def upcomingStart_def nullish_def)
  have t1: "resolveEventDetails ''slot_2'' pairEngine \<noteq> None"
    "d_title (the (resolveEventDetails ''slot_2'' pairEngine)) = ''Quiz night''"
    by (simp_all add: resolveEventDetails_def findPending_def pe fA fB
        detailsFor_def lookupProfile_def refs twinProfile_def)
  have rA: "reconcileOne pairEngine ''grp'' pairUpcoming A = (None, False)"
    by (simp add: reconcileOne_def fA truthy_def ids)
  have m1: "filter (\<lambda>c. u_title c = Some ''Quiz night'') pairUpcoming =
              [\<lparr>u_id = Some ''grpevt_1'', u_startsAtUtc = Some 50000000, u_eventStartsAt = None,
                u_title = Some ''Quiz night''\<rparr>]"
    "length pairUpcoming = 2" "pairUpcoming \<noteq> []"
    by (simp_all add: pairUpcoming_def)
  have rB: "reconcileOne pairEngine ''grp'' pairUpcoming B =
              (Some (B\<lparr>eventId := Some ''grpevt_1''\<rparr>), True)"
    using t1 by (auto simp: reconcileOne_def fB truthy_def cands m1 or_else_def Let_def)
  have first_call: "fst (reconcilePublishedEvents ''grp'' pairUpcoming pairEngine) = ReconcileOk 1 1"
    "map eventId (pendingEvents (snd (reconcilePublishedEvents ''grp'' pairUpcoming pairEngine))) =
       [Some ''grpevt_1'']"
    by (simp_all add: reconcilePublishedEvents_def pe rA rB Let_def List.map_filter_simps
        savePendingEvents_def emit_def)
  note t = reconcile_idempotent [where up = pairUpcoming and s = pairEngine and g = "''grp''",
      THEN mp, OF disjI2 [OF d]]
  show ?thesis using t d first_call by simp
qed

subsection \<open>The control action postNow\<close>

lemma findIndex_Some: "findIndex P xs = Some i \<Longrightarrow> i < length xs \<and> P (xs ! i)"
proof (induction xs arbitrary: i)
  case Nil
  then show ?case by simp
next
  case (Cons x xs)
  then show ?case by (cases "P x") (auto simp: nth_Cons split: nat.splits)
qed

lemma findPending_id: "findPending pid s = Some i \<Longrightarrow> id (pendingEvents s ! i) = pid"
  using findIndex_Some [of "\<lambda>e. id e = pid" "pendingEvents s" i] by (simp add: findPending_def)

text \<open>
  Claim C1, amended. For a pending record found under the given id, the control action
  \<open>postNow\<close> refuses a record whose status is \<open>queued\<close> with an error and changes nothing.
  For a record that is neither \<open>queued\<close> nor \<open>published\<close> it answers ok at once, after resetting
  the status to \<open>scheduled\<close> and handing the record to the rate limit queue under its own id
  and start time; when the queue processor is already at work the call starts no publish
  request: only the status and the queue change.
\<close>

theorem postNow_enqueues:
  "findPending pid s = Some i \<longrightarrow>
     (status (pendingEvents s ! i) = ''queued'' \<longrightarrow>
        handleMissedEvent now pid ''postNow'' s =
          (Failure ''Event is queued waiting for rate limits to clear. Please wait.'', s)) \<and>
     (status (pendingEvents s ! i) \<noteq> ''queued'' \<and> status (pendingEvents s ! i) \<noteq> ''published'' \<longrightarrow>
        handleMissedEvent now pid ''postNow'' s =
          (OkResult,
           queueEventPost now pid (groupId (pendingEvents s ! i)) (eventStartsAt (pendingEvents s ! i))
             (modifyPending i (\<lambda>e. e\<lparr>status := ''scheduled''\<rparr>) s)) \<and>
        (processing s \<longrightarrow>
           effects (snd (handleMissedEvent now pid ''postNow'' s)) = effects s \<and>
           suspended (snd (handleMissedEvent now pid ''postNow'' s)) = suspended s \<and>
           pendingEvents (snd (handleMissedEvent now pid ''postNow'' s)) =
             (pendingEvents s)[i := (pendingEvents s ! i)\<lparr>status := ''scheduled''\<rparr>] \<and>
           list_ex (\<lambda>item. q_pendingEventId item = pid)
             (queue (snd (handleMissedEvent now pid ''postNow'' s)))))"
proof
  assume f: "findPending pid s = Some i"
  have il: "i < length (pendingEvents s)"
    using findIndex_Some [of "\<lambda>e. id e = pid" "pendingEvents s" i] f by (simp add: findPending_def)
  have id_i: "id (pendingEvents s ! i) = pid" using f by (rule findPending_id)
  let ?s1 = "modifyPending i (\<lambda>e. e\<lparr>status := ''scheduled''\<rparr>) s"
  have e1: "pendingEvents ?s1 ! i = (pendingEvents s ! i)\<lparr>status := ''scheduled''\<rparr>"
    using il by (simp add: modifyPending_def)
  have h: "status (pendingEvents s ! i) \<noteq> ''queued'' \<Longrightarrow>
        handleMissedEvent now pid ''postNow'' s =
          (OkResult,
           queueEventPost now pid (groupId (pendingEvents s ! i)) (eventStartsAt (pendingEvents s ! i)) ?s1)"
    using f id_i e1 by (simp add: handleMissedEvent_def executeAutomatedPost_def Let_def)
  have q: "processing s \<Longrightarrow>
      effects (queueEventPost now pid g p ?s1) = effects s \<and>
      suspended (queueEventPost now pid g p ?s1) = suspended s \<and>
      pendingEvents (queueEventPost now pid g p ?s1) =
        (pendingEvents s)[i := (pendingEvents s ! i)\<lparr>status := ''scheduled''\<rparr>]" for g p
    by (simp add: queueEventPost_def processQueue_def modifyPending_def)
  have inq: "list_ex (\<lambda>item. q_pendingEventId item = pid) (sortQueue (xs @ [\<lparr>q_pendingEventId = pid, q_groupId = g, q_priority = p\<rparr>]))" for xs g p
  proof -
    have "set (insertByPriority x ys) = insert x (set ys)" for x ys
      by (induction ys) auto
    then have "set (sortQueue zs) = set zs" for zs
      unfolding sortQueue_def by (induction zs) auto
    then show ?thesis by (auto simp: list_ex_iff)
  qed
  have q2: "processing s \<Longrightarrow>
      list_ex (\<lambda>item. q_pendingEventId item = pid) (queue (queueEventPost now pid g p ?s1))" for g p
    using inq [of "queue s" g p]
    by (auto simp: queueEventPost_def processQueue_def modifyPending_def)
  show "(status (pendingEvents s ! i) = ''queued'' \<longrightarrow>
        handleMissedEvent now pid ''postNow'' s =
          (Failure ''Event is queued waiting for rate limits to clear. Please wait.'', s)) \<and>
     (status (pendingEvents s ! i) \<noteq> ''queued'' \<and> status (pendingEvents s ! i) \<noteq> ''published'' \<longrightarrow>
        handleMissedEvent now pid ''postNow'' s =
          (OkResult,
           queueEventPost now pid (groupId (pendingEvents s ! i)) (eventStartsAt (pendingEvents s ! i))
             (modifyPending i (\<lambda>e. e\<lparr>status := ''scheduled''\<rparr>) s)) \<and>
        (processing s \<longrightarrow>
           effects (snd (handleMissedEvent now pid ''postNow'' s)) = effects s \<and>
           suspended (snd (handleMissedEvent now pid ''postNow'' s)) = suspended s \<and>
           pendingEvents (snd (handleMissedEvent now pid ''postNow'' s)) =
             (pendingEvents s)[i := (pendingEvents s ! i)\<lparr>status := ''scheduled''\<rparr>] \<and>
           list_ex (\<lambda>item. q_pendingEventId item = pid)
             (queue (snd (handleMissedEvent now pid ''postNow'' s)))))"
  proof (intro conjI impI)
    assume "status (pendingEvents s ! i) = ''queued''"
    then show "handleMissedEvent now pid ''postNow'' s =
          (Failure ''Event is queued waiting for rate limits to clear. Please wait.'', s)"
      using f by (simp add: handleMissedEvent_def Let_def)
  next
    assume a: "status (pendingEvents s ! i) \<noteq> ''queued'' \<and> status (pendingEvents s ! i) \<noteq> ''published''"
    then show "handleMissedEvent now pid ''postNow'' s =
          (OkResult,
           queueEventPost now pid (groupId (pendingEvents s ! i)) (eventStartsAt (pendingEvents s ! i))
             (modifyPending i (\<lambda>e. e\<lparr>status := ''scheduled''\<rparr>) s))"
      using h by simp
  next
    assume a: "status (pendingEvents s ! i) \<noteq> ''queued'' \<and> status (pendingEvents s ! i) \<noteq> ''published''"
      and p: "processing s"
    show "effects (snd (handleMissedEvent now pid ''postNow'' s)) = effects s"
      using a p h q by simp
  next
    assume a: "status (pendingEvents s ! i) \<noteq> ''queued'' \<and> status (pendingEvents s ! i) \<noteq> ''published''"
      and p: "processing s"
    show "suspended (snd (handleMissedEvent now pid ''postNow'' s)) = suspended s"
      using a p h q by simp
  next
    assume a: "status (pendingEvents s ! i) \<noteq> ''queued'' \<and> status (pendingEvents s ! i) \<noteq> ''published''"
      and p: "processing s"
    show "pendingEvents (snd (handleMissedEvent now pid ''postNow'' s)) =
             (pendingEvents s)[i := (pendingEvents s ! i)\<lparr>status := ''scheduled''\<rparr>]"
      using a p h q by simp
  next
    assume a: "status (pendingEvents s ! i) \<noteq> ''queued'' \<and> status (pendingEvents s ! i) \<noteq> ''published''"
      and p: "processing s"
    show "list_ex (\<lambda>item. q_pendingEventId item = pid)
             (queue (snd (handleMissedEvent now pid ''postNow'' s)))"
      using a p h q2 by simp
  qed
qed


theorem postNow_enqueues_witness:
  "findPending ''pending_grpA_weekly_20000000'' busyEngine = Some 0 \<and>
   status (pendingEvents busyEngine ! 0) = ''scheduled'' \<and> processing busyEngine \<and>
   fst (handleMissedEvent 8000000 ''pending_grpA_weekly_20000000'' ''postNow'' busyEngine) = OkResult \<and>
   effects (snd (handleMissedEvent 8000000 ''pending_grpA_weekly_20000000'' ''postNow'' busyEngine)) = [] \<and>
   list_ex (\<lambda>item. q_pendingEventId item = ''pending_grpA_weekly_20000000'')
     (queue (snd (handleMissedEvent 8000000 ''pending_grpA_weekly_20000000'' ''postNow'' busyEngine))) \<and>
   findPending ''pending_grp_monthly_2000000'' queuedEngine = Some 0 \<and>
   status (pendingEvents queuedEngine ! 0) = ''queued'' \<and>
   handleMissedEvent 8000000 ''pending_grp_monthly_2000000'' ''postNow'' queuedEngine =
     (Failure ''Event is queued waiting for rate limits to clear. Please wait.'', queuedEngine)"
proof -
  have f: "findPending ''pending_grpA_weekly_20000000'' busyEngine = Some 0"
    by (simp add: busyEngine_def emptyEngine_def findPending_def examplePending_def)
  have st: "status (pendingEvents busyEngine ! 0) = ''scheduled''"
    by (simp add: busyEngine_def emptyEngine_def examplePending_def)
  have p: "processing busyEngine" by (simp add: busyEngine_def)
  have e: "effects busyEngine = []" by (simp add: busyEngine_def emptyEngine_def)
  have g: "findPending ''pending_grp_monthly_2000000'' queuedEngine = Some 0"
    by (simp add: queuedEngine_def missedEngine_def emptyEngine_def findPending_def examplePending_def)
  have qs: "status (pendingEvents queuedEngine ! 0) = ''queued''"
    by (simp add: queuedEngine_def missedEngine_def emptyEngine_def examplePending_def)
  have ne: "status (pendingEvents busyEngine ! 0) \<noteq> ''queued'' \<and>
            status (pendingEvents busyEngine ! 0) \<noteq> ''published''"
    unfolding st by simp
  note a = postNow_enqueues [where s = busyEngine and i = 0 and now = 8000000, THEN mp, OF f,
      THEN conjunct2, THEN mp, OF ne]
  note b = postNow_enqueues [where s = queuedEngine and i = 0 and now = 8000000, THEN mp, OF g,
      THEN conjunct1, THEN mp, OF qs]
  note c = a [THEN conjunct2, THEN mp, OF p]
  have r: "fst (handleMissedEvent 8000000 ''pending_grpA_weekly_20000000'' ''postNow'' busyEngine) = OkResult"
    using a [THEN conjunct1] by simp
  show ?thesis using f st p r c e g qs b by simp
qed

text \<open>
  Claim C1 as stated, "marks the record processing, calls the publish worker directly and
  reports the outcome", fails: for a missed record whose group is locked by the rate
  limiter the call answers ok, the record stands at \<open>scheduled\<close>, no publish request has been
  made and the record waits in the queue.
\<close>

theorem postNow_counterexample:
  "fst (handleMissedEvent 1000000 ''pending_grp_monthly_2000000'' ''postNow'' lockedEngine) = OkResult \<and>
   map status (pendingEvents (snd (handleMissedEvent 1000000 ''pending_grp_monthly_2000000'' ''postNow'' lockedEngine)))
     = [''scheduled''] \<and>
   effects (snd (handleMissedEvent 1000000 ''pending_grp_monthly_2000000'' ''postNow'' lockedEngine)) = [] \<and>
   suspended (snd (handleMissedEvent 1000000 ''pending_grp_monthly_2000000'' ''postNow'' lockedEngine)) = NotSuspended \<and>
   map q_pendingEventId (queue (snd (handleMissedEvent 1000000 ''pending_grp_monthly_2000000'' ''postNow'' lockedEngine)))
     = [''pending_grp_monthly_2000000'']"
  by code_simp

text \<open>
  A record that is already \<open>published\<close> is not refused either: its status is reset to
  \<open>scheduled\<close> and the call answers ok.
\<close>

lemma postNow_on_published:
  "map status (pendingEvents publishedEngine) = [''published''] \<and>
   fst (handleMissedEvent 1000000 ''pending_grp_monthly_2000000'' ''postNow'' publishedEngine) = OkResult \<and>
   map status (pendingEvents (snd (handleMissedEvent 1000000 ''pending_grp_monthly_2000000'' ''postNow'' publishedEngine)))
     = [''scheduled'']"
  by code_simp

end
